theory Spec2Isabelle
  imports Main "HOL-Library.Word"
begin

section \<open>Data model\<close>

text \<open>
  The package \<open>eazye\<close> (file \<open>eazye.go\<close>) drives an IMAP session: it searches for UIDs,
  fetches the messages in one batch, parses each record, sends it on a channel and
  changes flags. A second, independent function, \<open>VisibleText\<close>, walks the token stream
  of an HTML body and collects the visible text.

  Byte slices and Go strings are \<open>char list\<close>. A Go \<open>error\<close> is the sentinel \<open>io.EOF\<close> or a
  value known by its message; the \<open>nil\<close> error is \<open>None\<close> of \<open>error option\<close>.
\<close>

type_synonym bytes = string

datatype error = EOF | ErrorString string

fun error_string :: "error \<Rightarrow> string" where
  "error_string EOF = ''EOF''"
| "error_string (ErrorString msg) = msg"

text \<open>\<open>fmt.Errorf(prefix + "%s", err)\<close>: the prefix followed by \<open>err.Error()\<close>.\<close>

definition Errorf :: "string \<Rightarrow> error \<Rightarrow> error" where
  "Errorf prefix err = ErrorString (prefix @ error_string err)"

text \<open>
  \<open>imap.Field\<close> is an empty interface. The code reads fields through \<open>imap.AsNumber\<close>
  (zero unless the field is a number) and \<open>imap.AsBytes\<close> (nil unless the field is a
  string; \<open>FieldString\<close> carries the decoded bytes). UIDs are \<open>uint32\<close>.
\<close>

type_synonym uid = "32 word"

datatype Field = FieldNil | FieldNumber uid | FieldString bytes | FieldList "Field list"

fun AsNumber :: "Field \<Rightarrow> uid" where
  "AsNumber (FieldNumber n) = n"
| "AsNumber _ = 0"

fun AsBytes :: "Field \<Rightarrow> bytes" where
  "AsBytes (FieldString b) = b"
| "AsBytes _ = []"

text \<open>
  \<open>imap.FieldMap\<close> is a Go map from attribute names to fields. Indexing a missing key
  gives the nil interface; the two-result form also says whether the key is there.
\<close>

type_synonym FieldMap = "string \<rightharpoonup> Field"

definition index :: "FieldMap \<Rightarrow> string \<Rightarrow> Field" where
  "index msgFields k = (case msgFields k of None \<Rightarrow> FieldNil | Some f \<Rightarrow> f)"

text \<open>\<open>imap.SeqSet\<close>: a set of numbers; \<open>AddNum\<close> inserts one, \<open>Empty\<close> tests for none.\<close>

type_synonym SeqSet = "uid set"

definition AddNum :: "SeqSet \<Rightarrow> uid \<Rightarrow> SeqSet" where
  "AddNum seq n = insert n seq"

record 'm Email =
  ID :: Field
  Message :: "'m option"

record 'm Response =
  Email :: "'m Email"
  Err :: "error option"

text \<open>The struct literals \<open>Response{Err: err}\<close> and \<open>Response{Email: email}\<close>: the field
  left out has its zero value.\<close>

abbreviation Response_Err :: "error \<Rightarrow> 'm Response" where
  "Response_Err err \<equiv> \<lparr>Email = \<lparr>ID = FieldNil, Message = None\<rparr>, Err = Some err\<rparr>"

abbreviation Response_Email :: "'m Email \<Rightarrow> 'm Response" where
  "Response_Email email \<equiv> \<lparr>Email = email, Err = None\<rparr>"

subsection \<open>The session and the libraries\<close>

text \<open>
  The IMAP connection \<open>c.Imap\<close> belongs to the library \<open>go-imap\<close> and to the server behind
  it. Its state is a value of an arbitrary type \<open>'s\<close>, and each command, awaited with
  \<open>imap.Wait\<close>, is a function from the state to its outcome and the next state:
  \<^item> \<open>UIDSearch\<close> gives an error or the command's data, one list of search results for
    each response (\<open>rsp.SearchResults()\<close>);
  \<^item> \<open>UIDFetch\<close> gives an error or the attributes of each response
    (\<open>msgData.MessageInfo().Attrs\<close>), in the order of \<open>fCmd.Data\<close>;
  \<^item> \<open>UIDStore\<close> gives an error or nil.
\<close>

record 's imap_Client =
  UIDSearch :: "string list \<Rightarrow> 's \<Rightarrow> (error + uid list list) \<times> 's"
  UIDFetch :: "SeqSet \<Rightarrow> string list \<Rightarrow> 's \<Rightarrow> (error + FieldMap list) \<times> 's"
  UIDStore :: "SeqSet \<Rightarrow> string \<Rightarrow> string \<Rightarrow> 's \<Rightarrow> error option \<times> 's"

record 's Client =
  TLS :: bool
  Folder :: string
  ReadOnly :: bool
  Imap :: "'s imap_Client"

text \<open>
  Two functions of the standard library are parameters as well: \<open>Time.Format\<close> of package
  \<open>time\<close> (a time of type \<open>'t\<close> and a layout give a string) and \<open>mail.ReadMessage\<close> (the
  bytes of a message give an error or a parsed message of type \<open>'m\<close>).
\<close>

record ('t, 'm) stdlib =
  time_Format :: "'t \<Rightarrow> string \<Rightarrow> string"
  mail_ReadMessage :: "bytes \<Rightarrow> error + 'm"

text \<open>
  What a retrieval call does is recorded as a list of events, in the order in which the
  worker performs them: the commands it issues on the session (a store with its outcome),
  the responses it sends on the channel, and the closing of the channel. The stream the
  consumer reads is the list of the \<open>Send\<close> events up to \<open>Close\<close>; a send is taken to
  complete, that is, the consumer keeps receiving.
\<close>

datatype 'm event =
    Search "string list"
  | Fetch SeqSet "string list"
  | Store SeqSet string string "error option"
  | Send "'m Response"
  | Close

section \<open>Flag operations\<close>

definition alterEmail ::
  "'s Client \<Rightarrow> 'm Email \<Rightarrow> string \<Rightarrow> bool \<Rightarrow> 's \<Rightarrow> error option \<times> 'm event list \<times> 's" where
  "alterEmail c email flag plus' s =
     (let UID = AsNumber (ID email);
          flg = (if plus' then ''+FLAGS'' else ''-FLAGS'');
          fSeq = AddNum {} UID
      in case UIDStore (Imap c) fSeq flg flag s of
           (err, s') \<Rightarrow> (err, [Store fSeq flg flag err], s'))"

definition DeleteEmail :: "'s Client \<Rightarrow> 'm Email \<Rightarrow> 's \<Rightarrow> error option \<times> 'm event list \<times> 's" where
  "DeleteEmail c email s = alterEmail c email (CHR 0x5C # ''DELETED'') True s"

definition SetAsUnread :: "'s Client \<Rightarrow> 'm Email \<Rightarrow> 's \<Rightarrow> error option \<times> 'm event list \<times> 's" where
  "SetAsUnread c email s = alterEmail c email (CHR 0x5C # ''SEEN'') False s"

definition SetAsRead :: "'s Client \<Rightarrow> 'm Email \<Rightarrow> 's \<Rightarrow> error option \<times> 'm event list \<times> 's" where
  "SetAsRead c email s = alterEmail c email (CHR 0x5C # ''SEEN'') True s"

section \<open>The retrieval pipeline\<close>

definition dateFormat :: string where
  "dateFormat = ''02-Jan-2006''"

text \<open>The search terms that \<open>findEmails\<close> collects in \<open>specs\<close> before it issues the search.\<close>

definition findEmails_specs :: "('t, 'm) stdlib \<Rightarrow> string \<Rightarrow> 't option \<Rightarrow> string list" where
  "findEmails_specs L search since =
     (if length search > 0 then [search] else []) @
     (case since of
        None \<Rightarrow> []
      | Some t \<Rightarrow> [''SINCE'', time_Format L t dateFormat])"

definition findEmails ::
  "('t, 'm) stdlib \<Rightarrow> 's Client \<Rightarrow> string \<Rightarrow> 't option \<Rightarrow> 's
     \<Rightarrow> (error + uid list list) \<times> 'm event list \<times> 's" where
  "findEmails L c search since s =
     (let specs = findEmails_specs L search since
      in case UIDSearch (Imap c) specs s of
           (Inl err, s') \<Rightarrow> (Inl (Errorf ''uid search failed: '' err), [Search specs], s')
         | (Inr cmd, s') \<Rightarrow> (Inr cmd, [Search specs], s'))"

definition newEmail :: "('t, 'm) stdlib \<Rightarrow> FieldMap \<Rightarrow> error + 'm Email" where
  "newEmail L msgFields =
     (let message = AsBytes (index msgFields ''RFC822.HEADER'') @ [CHR 0x0A, CHR 0x0A]
                      @ AsBytes (index msgFields ''BODY[]'')
      in case mail_ReadMessage L message of
           Inl err \<Rightarrow> Inl (Errorf ''unable to read header: '' err)
         | Inr msg \<Rightarrow> Inr \<lparr>ID = index msgFields ''UID'', Message = Some msg\<rparr>)"

text \<open>The loop of \<open>getEmails\<close> over \<open>fCmd.Data\<close>. Each \<open>return\<close> of the source ends the
  recursion; \<open>continue\<close> goes on with the rest.\<close>

fun getEmails_loop ::
  "('t, 'm) stdlib \<Rightarrow> 's Client \<Rightarrow> bool \<Rightarrow> bool \<Rightarrow> FieldMap list \<Rightarrow> 's \<Rightarrow> 'm event list \<times> 's" where
  "getEmails_loop L c markAsRead delete [] s = ([], s)"
| "getEmails_loop L c markAsRead delete (msgFields # rest) s =
     (if msgFields ''RFC822.HEADER'' = None then getEmails_loop L c markAsRead delete rest s
      else
        (case newEmail L msgFields of
           Inl err \<Rightarrow> ([Send (Response_Err (Errorf ''unable to parse email: '' err))], s)
         | Inr email \<Rightarrow>
             (case (if \<not> markAsRead then SetAsUnread c email s else (None, [], s)) of
                (Some err, tr1, s1) \<Rightarrow>
                  (Send (Response_Email email) # tr1
                     @ [Send (Response_Err (Errorf ''unable to remove seen flag: '' err))], s1)
              | (None, tr1, s1) \<Rightarrow>
                  (case (if delete then DeleteEmail c email s1 else (None, [], s1)) of
                     (Some err, tr2, s2) \<Rightarrow>
                       (Send (Response_Email email) # tr1 @ tr2
                          @ [Send (Response_Err (Errorf ''unable to delete email: '' err))], s2)
                   | (None, tr2, s2) \<Rightarrow>
                       (case getEmails_loop L c markAsRead delete rest s2 of
                          (tr, s') \<Rightarrow> (Send (Response_Email email) # tr1 @ tr2 @ tr, s'))))))"

text \<open>\<open>getEmails\<close>: the UIDs of all search responses go into one set (the counter
  \<open>msgCount\<close> is never read), nothing is fetched for the empty set, and one fetch asks for
  the four attributes.\<close>

definition getEmails ::
  "('t, 'm) stdlib \<Rightarrow> 's Client \<Rightarrow> uid list list \<Rightarrow> bool \<Rightarrow> bool \<Rightarrow> 's \<Rightarrow> 'm event list \<times> 's" where
  "getEmails L c cmd markAsRead delete s =
     (let seq = fold (\<lambda>rsp seq. fold (\<lambda>uid seq. AddNum seq uid) rsp seq) cmd {};
          items = [''INTERNALDATE'', ''BODY[]'', ''UID'', ''RFC822.HEADER'']
      in if seq = {} then ([], s)
         else
           (case UIDFetch (Imap c) seq items s of
              (Inl err, s') \<Rightarrow>
                ([Fetch seq items,
                  Send (Response_Err (Errorf ''unable to perform uid fetch: '' err))], s')
            | (Inr fCmd, s') \<Rightarrow>
                (case getEmails_loop L c markAsRead delete fCmd s' of
                   (tr, s'') \<Rightarrow> (Fetch seq items # tr, s''))))"

text \<open>
  \<open>generateMail\<close> makes the channel, starts the worker and returns the channel with a nil
  error. The worker runs \<open>findEmails\<close> and \<open>getEmails\<close>; its deferred function closes the
  channel on every path. Here the worker's whole run (its events and the last state of the
  session) stands for the channel.
\<close>

definition generateMail_worker ::
  "('t, 'm) stdlib \<Rightarrow> 's Client \<Rightarrow> string \<Rightarrow> 't option \<Rightarrow> bool \<Rightarrow> bool \<Rightarrow> 's \<Rightarrow> 'm event list \<times> 's" where
  "generateMail_worker L c search since markAsRead delete s =
     (case findEmails L c search since s of
        (Inl err, tr, s') \<Rightarrow> (tr @ [Send (Response_Err err), Close], s')
      | (Inr cmd, tr, s') \<Rightarrow>
          (case getEmails L c cmd markAsRead delete s' of
             (tr', s'') \<Rightarrow> (tr @ tr' @ [Close], s'')))"

definition generateMail ::
  "('t, 'm) stdlib \<Rightarrow> 's Client \<Rightarrow> string \<Rightarrow> 't option \<Rightarrow> bool \<Rightarrow> bool \<Rightarrow> 's
     \<Rightarrow> ('m event list \<times> 's) \<times> error option" where
  "generateMail L c search since markAsRead delete s =
     (generateMail_worker L c search since markAsRead delete s, None)"

definition GenerateAll ::
  "('t, 'm) stdlib \<Rightarrow> 's Client \<Rightarrow> bool \<Rightarrow> bool \<Rightarrow> 's \<Rightarrow> ('m event list \<times> 's) \<times> error option" where
  "GenerateAll L c markAsRead delete s = generateMail L c ''ALL'' None markAsRead delete s"

definition GenerateUnread ::
  "('t, 'm) stdlib \<Rightarrow> 's Client \<Rightarrow> bool \<Rightarrow> bool \<Rightarrow> 's \<Rightarrow> ('m event list \<times> 's) \<times> error option" where
  "GenerateUnread L c markAsRead delete s = generateMail L c ''UNSEEN'' None markAsRead delete s"

definition GenerateSince ::
  "('t, 'm) stdlib \<Rightarrow> 's Client \<Rightarrow> 't \<Rightarrow> bool \<Rightarrow> bool \<Rightarrow> 's \<Rightarrow> ('m event list \<times> 's) \<times> error option" where
  "GenerateSince L c since markAsRead delete s =
     generateMail L c '''' (Some since) markAsRead delete s"

section \<open>Visible text of an HTML body\<close>

text \<open>
  \<open>html.NewTokenizer(body)\<close> belongs to \<open>golang.org/x/net/html\<close>. A tokenizer is a state \<open>z\<close>
  of an arbitrary type with the function \<open>Next\<close>; a token carries what the code reads from
  the tokenizer after \<open>Next\<close>: \<open>z.Err()\<close> for an error token, \<open>z.Text()\<close> for a text token and
  the name returned by \<open>z.TagName()\<close> for a start or end tag. Self-closing tags, comments
  and doctypes are token types of their own.
\<close>

datatype token =
    ErrorToken error
  | TextToken bytes
  | StartTagToken bytes
  | EndTagToken bytes
  | SelfClosingTagToken bytes
  | CommentToken
  | DoctypeToken

definition styleTag :: bytes where "styleTag = ''style''"
definition scriptTag :: bytes where "scriptTag = ''script''"
definition headTag :: bytes where "headTag = ''head''"
definition metaTag :: bytes where "metaTag = ''meta''"
definition doctypeTag :: bytes where "doctypeTag = ''doctype''"
definition shapeTag :: bytes where "shapeTag = ''v:shape''"
definition imageDataTag :: bytes where "imageDataTag = ''v:imagedata''"
definition commentTag :: bytes where "commentTag = ''!''"

definition nonVisibleTags :: "bytes list" where
  "nonVisibleTags =
     [styleTag, scriptTag, headTag, metaTag, doctypeTag, shapeTag, imageDataTag, commentTag]"

text \<open>The inner loop over \<open>nonVisibleTags\<close>: at the first tag equal to the name, \<open>skip\<close> is
  assigned and the loop is left; with no equal tag \<open>skip\<close> keeps its value.\<close>

fun nonVisibleTags_loop :: "bytes \<Rightarrow> bool \<Rightarrow> bytes list \<Rightarrow> bool \<Rightarrow> bool" where
  "nonVisibleTags_loop tn isStart [] skip = skip"
| "nonVisibleTags_loop tn isStart (nvTag # rest) skip =
     (if tn = nvTag then isStart else nonVisibleTags_loop tn isStart rest skip)"

text \<open>The loop \<open>for { tt := z.Next() ... }\<close> ends only at an error token, so it is a partial
  function: \<open>None\<close> is a run that never returns. The copy made of each fragment is the
  fragment's value.\<close>

partial_function (option) VisibleText_loop ::
  "(bytes \<Rightarrow> bytes) \<Rightarrow> ('z \<Rightarrow> token \<times> 'z) \<Rightarrow> 'z \<Rightarrow> bytes list \<Rightarrow> bool
     \<Rightarrow> (bytes list \<times> error option) option" where
  "VisibleText_loop TrimSpace Next z text skip =
     (case Next z of
        (tt, z') \<Rightarrow>
          (case tt of
             ErrorToken err \<Rightarrow>
               if err = EOF then Some (text, None) else Some (text, Some err)
           | TextToken t \<Rightarrow>
               if \<not> skip then
                 (let tmp = TrimSpace t
                  in if length tmp = 0 then VisibleText_loop TrimSpace Next z' text skip
                     else VisibleText_loop TrimSpace Next z' (text @ [tmp]) skip)
               else VisibleText_loop TrimSpace Next z' text skip
           | StartTagToken tn \<Rightarrow>
               VisibleText_loop TrimSpace Next z' text
                 (nonVisibleTags_loop tn True nonVisibleTags skip)
           | EndTagToken tn \<Rightarrow>
               VisibleText_loop TrimSpace Next z' text
                 (nonVisibleTags_loop tn False nonVisibleTags skip)
           | _ \<Rightarrow> VisibleText_loop TrimSpace Next z' text skip))"

declare VisibleText_loop.simps [code]

definition VisibleText ::
  "(bytes \<Rightarrow> bytes) \<Rightarrow> ('z \<Rightarrow> token \<times> 'z) \<Rightarrow> 'z \<Rightarrow> (bytes list \<times> error option) option" where
  "VisibleText TrimSpace Next z = VisibleText_loop TrimSpace Next z [] False"

subsection \<open>The flat-flag algorithm, as the specification words it\<close>

text \<open>
  One boolean \<open>suppressed\<close> and the fragments so far. A start tag whose name is in the
  fixed set sets the flag, an end tag whose name is in the set clears it (whichever tag
  set it: the flag is not a nesting counter). A text token met while the flag is false is
  trimmed, dropped when empty and appended otherwise. Every other token changes nothing.
\<close>

definition non_visible_names :: "bytes set" where
  "non_visible_names =
     {''style'', ''script'', ''head'', ''meta'', ''doctype'', ''v:shape'', ''v:imagedata'', ''!''}"

fun flat_flag_step :: "(bytes \<Rightarrow> bytes) \<Rightarrow> bool \<times> bytes list \<Rightarrow> token \<Rightarrow> bool \<times> bytes list" where
  "flat_flag_step trim (suppressed, frags) (StartTagToken name) =
     (if name \<in> non_visible_names then (True, frags) else (suppressed, frags))"
| "flat_flag_step trim (suppressed, frags) (EndTagToken name) =
     (if name \<in> non_visible_names then (False, frags) else (suppressed, frags))"
| "flat_flag_step trim (suppressed, frags) (TextToken t) =
     (if suppressed then (suppressed, frags)
      else if trim t = [] then (suppressed, frags)
      else (suppressed, frags @ [trim t]))"
| "flat_flag_step trim (suppressed, frags) _ = (suppressed, frags)"

definition flat_flag :: "(bytes \<Rightarrow> bytes) \<Rightarrow> token list \<Rightarrow> bytes list" where
  "flat_flag trim toks = snd (foldl (flat_flag_step trim) (False, []) toks)"

text \<open>The first \<open>n\<close> tokens that a tokenizer yields from the state \<open>z\<close>.\<close>

fun tokens_from :: "('z \<Rightarrow> token \<times> 'z) \<Rightarrow> 'z \<Rightarrow> nat \<Rightarrow> token list" where
  "tokens_from Next z 0 = []"
| "tokens_from Next z (Suc n) = fst (Next z) # tokens_from Next (snd (Next z)) n"

fun is_ErrorToken :: "token \<Rightarrow> bool" where
  "is_ErrorToken (ErrorToken err) = True"
| "is_ErrorToken _ = False"

text \<open>
  The result type of \<open>VisibleText\<close>: the fragments and the error. An error token carrying
  \<open>io.EOF\<close> gives the nil error, any other error is returned as it is.
\<close>

definition returned_error :: "error \<Rightarrow> error option" where
  "returned_error err = (if err = EOF then None else Some err)"

subsection \<open>A tokenizer over a list of tokens, and white space in ASCII\<close>

text \<open>
  A tokenizer whose state is the list of the tokens still to come; at the end of the list
  it reports \<open>io.EOF\<close>, as the tokenizer of the library does at the end of its input.
\<close>

fun list_Next :: "token list \<Rightarrow> token \<times> token list" where
  "list_Next [] = (ErrorToken EOF, [])"
| "list_Next (t # ts) = (t, ts)"

text \<open>
  \<open>bytes.TrimSpace\<close> on ASCII input removes leading and trailing bytes among tab,
  newline, vertical tab, form feed, carriage return and space.
\<close>

definition asciiSpace :: "char \<Rightarrow> bool" where
  "asciiSpace ch =
     (ch = CHR 0x09 \<or> ch = CHR 0x0A \<or> ch = CHR 0x0B \<or> ch = CHR 0x0C \<or> ch = CHR 0x0D \<or> ch = CHR '' '')"

definition ascii_TrimSpace :: "bytes \<Rightarrow> bytes" where
  "ascii_TrimSpace b = rev (dropWhile asciiSpace (rev (dropWhile asciiSpace b)))"

text \<open>
  The tokens of
  \<^verbatim>\<open><html><head><style>.a{}</style></head><body>Hi <b>there</b></body></html>\<close>:
  thirteen tags and three text tokens (\<open>style\<close> holds raw text), then the end of input.
\<close>

definition example_tokens :: "token list" where
  "example_tokens =
     [StartTagToken ''html'', StartTagToken ''head'', StartTagToken ''style'',
      TextToken ''.a{}'', EndTagToken ''style'', EndTagToken ''head'',
      StartTagToken ''body'', TextToken ''Hi '', StartTagToken ''b'', TextToken ''there'',
      EndTagToken ''b'', EndTagToken ''body'', EndTagToken ''html'']"

section \<open>Reading a run\<close>

text \<open>The responses sent, the emails among them, the errors among them, and the search
  terms issued.\<close>

fun sent :: "'m event list \<Rightarrow> 'm Response list" where
  "sent [] = []"
| "sent (Send r # tr) = r # sent tr"
| "sent (_ # tr) = sent tr"

definition emails :: "'m event list \<Rightarrow> 'm Email list" where
  "emails tr = map Email (filter (\<lambda>r. Err r = None) (sent tr))"

definition errors :: "'m event list \<Rightarrow> error list" where
  "errors tr = concat (map (\<lambda>r. case Err r of None \<Rightarrow> [] | Some e \<Rightarrow> [e]) (sent tr))"


fun is_Fetch :: "'m event \<Rightarrow> bool" where
  "is_Fetch (Fetch seq items) = True"
| "is_Fetch _ = False"

fun store_failed :: "'m event \<Rightarrow> bool" where
  "store_failed (Store seq flg flag (Some err)) = True"
| "store_failed _ = False"

fun is_Store :: "'m event \<Rightarrow> bool" where
  "is_Store (Store seq flg flag err) = True"
| "is_Store _ = False"

text \<open>The store that removes the seen flag (\<open>UIDStore\<close> with \<open>-FLAGS\<close> and \<open>\SEEN\<close>), for
  any message and for the message of a given email.\<close>

fun is_unseen_store :: "'m event \<Rightarrow> bool" where
  "is_unseen_store (Store seq flg flag err) = (flg = ''-FLAGS'' \<and> flag = CHR 0x5C # ''SEEN'')"
| "is_unseen_store _ = False"

fun is_unseen_store_of :: "'m Email \<Rightarrow> 'm event \<Rightarrow> bool" where
  "is_unseen_store_of email (Store seq flg flag err) =
     (seq = {AsNumber (ID email)} \<and> flg = ''-FLAGS'' \<and> flag = CHR 0x5C # ''SEEN'')"
| "is_unseen_store_of email _ = False"

definition unseen_store :: "'m Email \<Rightarrow> error option \<Rightarrow> 'm event" where
  "unseen_store email err = Store {AsNumber (ID email)} ''-FLAGS'' (CHR 0x5C # ''SEEN'') err"

text \<open>Every email sent is followed at once by the store that removes its seen flag.\<close>

fun unseen_follows :: "'m event list \<Rightarrow> bool" where
  "unseen_follows [] = True"
| "unseen_follows (Send r # tr) =
     ((case Err r of
         Some e \<Rightarrow> True
       | None \<Rightarrow> (case tr of [] \<Rightarrow> False | ev # tr' \<Rightarrow> is_unseen_store_of (Email r) ev))
      \<and> unseen_follows tr)"
| "unseen_follows (_ # tr) = unseen_follows tr"

text \<open>A record is well formed when it has the header field and its message parses.\<close>

definition has_header :: "FieldMap \<Rightarrow> bool" where
  "has_header msgFields = (msgFields ''RFC822.HEADER'' \<noteq> None)"

definition well_formed :: "('t, 'm) stdlib \<Rightarrow> FieldMap \<Rightarrow> bool" where
  "well_formed L msgFields =
     (has_header msgFields \<and> (case newEmail L msgFields of Inl err \<Rightarrow> False | Inr email \<Rightarrow> True))"

text \<open>The five wrappers under which an error reaches the stream.\<close>

definition fatal_prefixes :: "string list" where
  "fatal_prefixes =
     [''uid search failed: '', ''unable to perform uid fetch: '', ''unable to parse email: '',
      ''unable to remove seen flag: '', ''unable to delete email: '']"

section \<open>A mailbox behind the session\<close>

type_synonym mailbox = "uid \<Rightarrow> string set"

text \<open>
  Modelled from the spec: the session's \<open>store\<close> operation and the mailbox it acts on, which
  are the remote server's and not part of the source. A mailbox gives each identifier its
  set of flags; \<open>store\<close> on a set of identifiers adds the named flag with \<open>+FLAGS\<close>, removes
  it with \<open>-FLAGS\<close>, and returns no error.
\<close>

definition Session_store :: "SeqSet \<Rightarrow> string \<Rightarrow> string \<Rightarrow> mailbox \<Rightarrow> error option \<times> mailbox" where
  "Session_store ids flg flag mb =
     (None,
      (\<lambda>u. if u \<in> ids
           then (if flg = ''+FLAGS'' then insert flag (mb u)
                 else if flg = ''-FLAGS'' then mb u - {flag}
                 else mb u)
           else mb u))"

text \<open>A client whose session stores on such a mailbox.\<close>

definition with_store :: "mailbox Client \<Rightarrow> mailbox Client" where
  "with_store c = c\<lparr>Imap := (Imap c)\<lparr>UIDStore := Session_store\<rparr>\<rparr>"

section \<open>A session for examples\<close>

text \<open>
  A session that answers every search with \<open>found\<close> and every fetch with \<open>fetched\<close>; its
  state counts the store commands, and the store numbered \<open>failAt\<close> fails (none fails when
  \<open>failAt\<close> is 0). The library stand-ins format every time as one fixed date and reject a
  message that begins with a colon.
\<close>

definition example_Imap ::
  "(error + uid list list) \<Rightarrow> (error + FieldMap list) \<Rightarrow> nat \<Rightarrow> nat imap_Client" where
  "example_Imap found fetched failAt =
     \<lparr>UIDSearch = (\<lambda>specs s. (found, s)),
      UIDFetch = (\<lambda>seq items s. (fetched, s)),
      UIDStore = (\<lambda>seq flg flag s.
         (if Suc s = failAt then Some (ErrorString ''connection closed'') else None, Suc s))\<rparr>"

definition example_Client ::
  "(error + uid list list) \<Rightarrow> (error + FieldMap list) \<Rightarrow> nat \<Rightarrow> nat Client" where
  "example_Client found fetched failAt =
     \<lparr>TLS = False, Folder = ''INBOX'', ReadOnly = False,
      Imap = example_Imap found fetched failAt\<rparr>"

definition example_L :: "(nat, bytes) stdlib" where
  "example_L =
     \<lparr>time_Format = (\<lambda>t layout. ''01-Nov-2026''),
      mail_ReadMessage = (\<lambda>b. if take 1 b = '':'' then Inl (ErrorString ''malformed header'')
                              else Inr b)\<rparr>"

definition example_record :: "uid \<Rightarrow> FieldMap" where
  "example_record n =
     [''RFC822.HEADER'' \<mapsto> FieldString ''Subject: hi'', ''BODY[]'' \<mapsto> FieldString ''text'',
      ''UID'' \<mapsto> FieldNumber n]"

definition flags_only_record :: FieldMap where
  "flags_only_record = [''UID'' \<mapsto> FieldNumber 7, ''FLAGS'' \<mapsto> FieldList []]"

definition example_email :: "uid \<Rightarrow> bytes Email" where
  "example_email n =
     \<lparr>ID = FieldNumber n,
      Message = Some (''Subject: hi'' @ [CHR 0x0A, CHR 0x0A] @ ''text'')\<rparr>"

text \<open>A record with the header field whose message does not parse.\<close>

definition bad_record :: "uid \<Rightarrow> FieldMap" where
  "bad_record n =
     [''RFC822.HEADER'' \<mapsto> FieldString '': no name'', ''BODY[]'' \<mapsto> FieldString ''text'',
      ''UID'' \<mapsto> FieldNumber n]"

section \<open>Lemmas on runs\<close>

subsection \<open>Events of a run\<close>

lemma sent_append: "sent (xs @ ys) = sent xs @ sent ys"
  by (induction xs rule: sent.induct) simp_all


lemma fold_AddNum: "fold (\<lambda>uid seq. AddNum seq uid) rsp seq = set rsp \<union> seq"
  by (induction rsp arbitrary: seq) (auto simp: AddNum_def)

lemma fold_fold_AddNum:
  "fold (\<lambda>rsp seq. fold (\<lambda>uid seq. AddNum seq uid) rsp seq) cmd seq = set (concat cmd) \<union> seq"
  by (induction cmd arbitrary: seq) (auto simp: fold_AddNum)







subsection \<open>One round of the loop\<close>

lemma alterEmail_eq:
  "alterEmail c email flag p s =
     (fst (UIDStore (Imap c) {AsNumber (ID email)} (if p then ''+FLAGS'' else ''-FLAGS'') flag s),
      [Store {AsNumber (ID email)} (if p then ''+FLAGS'' else ''-FLAGS'') flag
         (fst (UIDStore (Imap c) {AsNumber (ID email)} (if p then ''+FLAGS'' else ''-FLAGS'') flag s))],
      snd (UIDStore (Imap c) {AsNumber (ID email)} (if p then ''+FLAGS'' else ''-FLAGS'') flag s))"
  by (simp add: alterEmail_def AddNum_def Let_def split: prod.splits)

lemma getEmails_loop_Cons_cases [consumes 1, case_names skip parse unseen delete ok]:
  assumes "getEmails_loop L c markAsRead delete (r # rest) s = (tr, s')"
  obtains
    (skip) "r ''RFC822.HEADER'' = None" "getEmails_loop L c markAsRead delete rest s = (tr, s')"
  | (parse) err where "r ''RFC822.HEADER'' \<noteq> None" "newEmail L r = Inl err"
      "tr = [Send (Response_Err (Errorf ''unable to parse email: '' err))]" "s' = s"
  | (unseen) email err where "r ''RFC822.HEADER'' \<noteq> None" "newEmail L r = Inr email"
      "\<not> markAsRead"
      "UIDStore (Imap c) {AsNumber (ID email)} ''-FLAGS'' (CHR 0x5C # ''SEEN'') s = (Some err, s')"
      "tr = [Send (Response_Email email), unseen_store email (Some err),
             Send (Response_Err (Errorf ''unable to remove seen flag: '' err))]"
  | (delete) email err s1 where "r ''RFC822.HEADER'' \<noteq> None" "newEmail L r = Inr email"
      "delete"
      "markAsRead \<and> s1 = s \<or> \<not> markAsRead \<and>
         UIDStore (Imap c) {AsNumber (ID email)} ''-FLAGS'' (CHR 0x5C # ''SEEN'') s = (None, s1)"
      "UIDStore (Imap c) {AsNumber (ID email)} ''+FLAGS'' (CHR 0x5C # ''DELETED'') s1 = (Some err, s')"
      "tr = Send (Response_Email email) # (if markAsRead then [] else [unseen_store email None])
              @ [Store {AsNumber (ID email)} ''+FLAGS'' (CHR 0x5C # ''DELETED'') (Some err),
                 Send (Response_Err (Errorf ''unable to delete email: '' err))]"
  | (ok) email s1 s2 tr' where "r ''RFC822.HEADER'' \<noteq> None" "newEmail L r = Inr email"
      "markAsRead \<and> s1 = s \<or> \<not> markAsRead \<and>
         UIDStore (Imap c) {AsNumber (ID email)} ''-FLAGS'' (CHR 0x5C # ''SEEN'') s = (None, s1)"
      "\<not> delete \<and> s2 = s1 \<or> delete \<and>
         UIDStore (Imap c) {AsNumber (ID email)} ''+FLAGS'' (CHR 0x5C # ''DELETED'') s1 = (None, s2)"
      "getEmails_loop L c markAsRead delete rest s2 = (tr', s')"
      "tr = Send (Response_Email email) # (if markAsRead then [] else [unseen_store email None])
              @ (if delete then [Store {AsNumber (ID email)} ''+FLAGS'' (CHR 0x5C # ''DELETED'') None]
                 else []) @ tr'"
proof (cases "r ''RFC822.HEADER'' = None")
  case True
  with assms show ?thesis by (auto intro: skip)
next
  case hdr: False
  show ?thesis
  proof (cases "newEmail L r")
    case (Inl err)
    with assms hdr show ?thesis by (auto intro: parse)
  next
    case (Inr email)
    let ?u = "UIDStore (Imap c) {AsNumber (ID email)} ''-FLAGS'' (CHR 0x5C # ''SEEN'') s"
    obtain e1 s1 where u: "(if \<not> markAsRead then ?u else (None, s)) = (e1, s1)"
      by (cases "if \<not> markAsRead then ?u else (None, s)") auto
    let ?d = "UIDStore (Imap c) {AsNumber (ID email)} ''+FLAGS'' (CHR 0x5C # ''DELETED'') s1"
    obtain e2 s2 where d: "(if delete then ?d else (None, s1)) = (e2, s2)"
      by (cases "if delete then ?d else (None, s1)") auto
    obtain tr' s3 where l: "getEmails_loop L c markAsRead delete rest s2 = (tr', s3)"
      by (cases "getEmails_loop L c markAsRead delete rest s2") auto
    show ?thesis
    proof (cases e1)
      case (Some err)
      with assms hdr Inr u show ?thesis
        by (cases markAsRead)
           (auto simp: SetAsUnread_def alterEmail_eq unseen_store_def intro: unseen
              split: prod.splits if_splits)
    next
      case e1: None
      show ?thesis
      proof (cases e2)
        case (Some err)
        with assms hdr Inr u d e1 show ?thesis
          by (cases markAsRead; cases delete)
             (auto simp: SetAsUnread_def DeleteEmail_def alterEmail_eq unseen_store_def
              split: prod.splits if_splits intro: delete[where ?s1.0 = s1])
      next
        case None
        with assms hdr Inr u d e1 l show ?thesis
          by (cases markAsRead; cases delete)
             (auto simp: SetAsUnread_def DeleteEmail_def alterEmail_eq unseen_store_def
              split: prod.splits if_splits intro: ok[where ?s1.0 = s1 and ?s2.0 = s2])
      qed
    qed
  qed
qed

subsection \<open>Errors, emails and skipped records\<close>

lemma errors_simps:
  "errors [] = []"
  "errors (Send r # tr) = (case Err r of None \<Rightarrow> [] | Some e \<Rightarrow> [e]) @ errors tr"
  "errors (Store seq flg flag err # tr) = errors tr"
  "errors (Search specs # tr) = errors tr"
  "errors (Fetch seq items # tr) = errors tr"
  "errors (Close # tr) = errors tr"
  "errors (unseen_store email err # tr) = errors tr"
  by (simp_all add: errors_def unseen_store_def)

lemma emails_simps:
  "emails [] = []"
  "emails (Send r # tr) = (if Err r = None then [Email r] else []) @ emails tr"
  "emails (Store seq flg flag err # tr) = emails tr"
  "emails (Search specs # tr) = emails tr"
  "emails (Fetch seq items # tr) = emails tr"
  "emails (Close # tr) = emails tr"
  "emails (unseen_store email err # tr) = emails tr"
  by (simp_all add: emails_def unseen_store_def)

lemma errors_append: "errors (xs @ ys) = errors xs @ errors ys"
  by (simp add: errors_def sent_append)

lemma emails_append: "emails (xs @ ys) = emails xs @ emails ys"
  by (simp add: emails_def sent_append)

lemma loop_no_Close:
  "getEmails_loop L c markAsRead delete recs s = (tr, s') \<Longrightarrow> Close \<notin> set tr"
proof (induction recs arbitrary: s tr s')
  case Nil
  then show ?case by simp
next
  case (Cons r recs)
  from Cons.prems show ?case
  proof (cases rule: getEmails_loop_Cons_cases)
    case skip
    then show ?thesis using Cons.IH by blast
  next
    case (ok email s1 s2 tr')
    with Cons.IH [of s2 tr' s'] show ?thesis by (simp add: unseen_store_def)
  qed (simp_all add: unseen_store_def)
qed

lemma loop_errors:
  "getEmails_loop L c markAsRead delete recs s = (tr, s') \<Longrightarrow>
     errors tr = [] \<or>
     (\<exists>pre p e. tr = pre @ [Send (Response_Err (Errorf p e))] \<and> p \<in> set fatal_prefixes
        \<and> errors pre = [])"
proof (induction recs arbitrary: s tr s')
  case Nil
  then show ?case by (simp add: errors_simps)
next
  case (Cons r recs)
  from Cons.prems show ?case
  proof (cases rule: getEmails_loop_Cons_cases)
    case skip
    then show ?thesis using Cons.IH by blast
  next
    case (parse err)
    have "tr = [] @ [Send (Response_Err (Errorf ''unable to parse email: '' err))]"
      using parse by simp
    moreover have "''unable to parse email: '' \<in> set fatal_prefixes"
      by (simp add: fatal_prefixes_def)
    ultimately show ?thesis using errors_simps(1) by blast
  next
    case (unseen email err)
    have "tr = [Send (Response_Email email), unseen_store email (Some err)]
            @ [Send (Response_Err (Errorf ''unable to remove seen flag: '' err))]"
      using unseen by simp
    moreover have "''unable to remove seen flag: '' \<in> set fatal_prefixes"
      by (simp add: fatal_prefixes_def)
    moreover have "errors [Send (Response_Email email), unseen_store email (Some err)] = []"
      by (simp add: errors_simps)
    ultimately show ?thesis by blast
  next
    case (delete email err s1)
    let ?pre = "Send (Response_Email email) # (if markAsRead then [] else [unseen_store email None])
              @ [Store {AsNumber (ID email)} ''+FLAGS'' (CHR 0x5C # ''DELETED'') (Some err)]"
    have "tr = ?pre @ [Send (Response_Err (Errorf ''unable to delete email: '' err))]"
      using delete by simp
    moreover have "''unable to delete email: '' \<in> set fatal_prefixes"
      by (simp add: fatal_prefixes_def)
    moreover have "errors ?pre = []"
      by (simp add: errors_simps)
    ultimately show ?thesis by blast
  next
    case (ok email s1 s2 tr')
    let ?hd = "Send (Response_Email email) # (if markAsRead then [] else [unseen_store email None])
              @ (if delete then [Store {AsNumber (ID email)} ''+FLAGS'' (CHR 0x5C # ''DELETED'') None]
                 else [])"
    have tr: "tr = ?hd @ tr'" using ok by simp
    have hd: "errors ?hd = []" by (simp add: errors_simps)
    from Cons.IH [OF ok(5)] show ?thesis
    proof
      assume "errors tr' = []"
      with tr hd show ?thesis by (simp only: errors_append) simp
    next
      assume "\<exists>pre p e. tr' = pre @ [Send (Response_Err (Errorf p e))] \<and> p \<in> set fatal_prefixes
        \<and> errors pre = []"
      then obtain pre p e where pre: "tr' = pre @ [Send (Response_Err (Errorf p e))]"
        "p \<in> set fatal_prefixes" "errors pre = []" by blast
      have "tr = (?hd @ pre) @ [Send (Response_Err (Errorf p e))]"
        using tr pre(1) by simp
      moreover have "errors (?hd @ pre) = []"
        using hd pre(3) by (simp only: errors_append) simp
      ultimately show ?thesis using pre(2) by blast
    qed
  qed
qed

lemma loop_stop:
  "getEmails_loop L c markAsRead delete xs s = (tr, s') \<Longrightarrow> errors tr \<noteq> [] \<Longrightarrow>
     getEmails_loop L c markAsRead delete (xs @ ys) s = (tr, s')"
proof (induction xs arbitrary: s tr s')
  case Nil
  then show ?case by (simp add: errors_simps)
next
  case (Cons r xs)
  from Cons.prems(1) show ?case
  proof (cases rule: getEmails_loop_Cons_cases)
    case skip
    with Cons.IH [OF skip(2) Cons.prems(2)] show ?thesis by simp
  next
    case (parse err)
    then show ?thesis by auto
  next
    case (unseen email err)
    then show ?thesis
      by (auto simp: SetAsUnread_def alterEmail_eq unseen_store_def)
  next
    case (delete email err s1)
    then show ?thesis
      by (auto simp: SetAsUnread_def DeleteEmail_def alterEmail_eq unseen_store_def)
  next
    case (ok email s1 s2 tr')
    have "errors tr' \<noteq> []"
      using Cons.prems(2) ok(6) by (auto simp: errors_simps errors_append split: if_splits)
    from Cons.IH [OF ok(5) this] ok show ?thesis
      by (auto simp: SetAsUnread_def DeleteEmail_def alterEmail_eq unseen_store_def)
  qed
qed

lemma loop_skip:
  "p ''RFC822.HEADER'' = None \<Longrightarrow>
     getEmails_loop L c markAsRead delete (xs @ p # ys) s
       = getEmails_loop L c markAsRead delete (xs @ ys) s"
  by (induction xs arbitrary: s)
     (simp_all cong: if_cong sum.case_cong prod.case_cong option.case_cong)

lemma loop_unseen_follows:
  "getEmails_loop L c False delete recs s = (tr, s') \<Longrightarrow>
     unseen_follows tr \<and> length (filter is_unseen_store tr) = length (emails tr)"
proof (induction recs arbitrary: s tr s')
  case Nil
  then show ?case by (simp add: emails_simps)
next
  case (Cons r recs)
  from Cons.prems(1) show ?case
  proof (cases rule: getEmails_loop_Cons_cases)
    case skip
    then show ?thesis using Cons.IH by blast
  next
    case (ok email s1 s2 tr')
    from Cons.IH [OF ok(5)] ok(6) show ?thesis
      by (simp add: emails_simps emails_append unseen_store_def)
  qed (simp_all add: emails_simps emails_append unseen_store_def)
qed

lemma loop_unseen_fail:
  "getEmails_loop L c False delete recs s = (tr, s') \<Longrightarrow>
   Store seq ''-FLAGS'' (CHR 0x5C # ''SEEN'') (Some err) \<in> set tr \<Longrightarrow>
     \<exists>pre email. tr = pre @ [Send (Response_Email email), unseen_store email (Some err),
                    Send (Response_Err (Errorf ''unable to remove seen flag: '' err))]
       \<and> seq = {AsNumber (ID email)} \<and> errors pre = []"
proof (induction recs arbitrary: s tr s')
  case Nil
  then show ?case by simp
next
  case (Cons r recs)
  from Cons.prems(1) show ?case
  proof (cases rule: getEmails_loop_Cons_cases)
    case skip
    then show ?thesis using Cons.IH Cons.prems(2) by blast
  next
    case (parse e)
    with Cons.prems(2) show ?thesis by simp
  next
    case (unseen email e)
    with Cons.prems(2) have "err = e" "seq = {AsNumber (ID email)}"
      by (simp_all add: unseen_store_def)
    with unseen(5) have "tr = [] @ [Send (Response_Email email), unseen_store email (Some err),
                    Send (Response_Err (Errorf ''unable to remove seen flag: '' err))]"
      by simp
    with \<open>seq = {AsNumber (ID email)}\<close> errors_simps(1) show ?thesis by blast
  next
    case (delete email e s1)
    with Cons.prems(2) show ?thesis by (simp add: unseen_store_def)
  next
    case (ok email s1 s2 tr')
    let ?hd = "Send (Response_Email email) # [unseen_store email None]
              @ (if delete then [Store {AsNumber (ID email)} ''+FLAGS'' (CHR 0x5C # ''DELETED'') None]
                 else [])"
    have tr: "tr = ?hd @ tr'" using ok by simp
    have hd: "errors ?hd = []" by (simp add: errors_simps)
    have "Store seq ''-FLAGS'' (CHR 0x5C # ''SEEN'') (Some err) \<in> set tr'"
      using Cons.prems(2) tr by (auto simp: unseen_store_def split: if_splits)
    from Cons.IH [OF ok(5) this]
    obtain pre em where pre: "tr' = pre @ [Send (Response_Email em), unseen_store em (Some err),
                    Send (Response_Err (Errorf ''unable to remove seen flag: '' err))]"
      "seq = {AsNumber (ID em)}" "errors pre = []" by blast
    have "tr = (?hd @ pre) @ [Send (Response_Email em), unseen_store em (Some err),
                    Send (Response_Err (Errorf ''unable to remove seen flag: '' err))]"
      using tr pre(1) by simp
    moreover have "errors (?hd @ pre) = []"
      using hd pre(3) by (simp only: errors_append) simp
    ultimately show ?thesis using pre(2) by blast
  qed
qed

lemma loop_prefix:
  "getEmails_loop L c markAsRead delete recs s = (tr, s') \<Longrightarrow>
     map Inr (emails tr) = take (length (emails tr)) (map (newEmail L) (filter has_header recs))"
proof (induction recs arbitrary: s tr s')
  case Nil
  then show ?case by (simp add: emails_simps)
next
  case (Cons r recs)
  from Cons.prems(1) show ?case
  proof (cases rule: getEmails_loop_Cons_cases)
    case skip
    with Cons.IH [OF skip(2)] show ?thesis by (simp add: has_header_def)
  next
    case (ok email s1 s2 tr')
    from Cons.IH [OF ok(5)] ok(1,2,6) show ?thesis
      by (simp add: emails_simps emails_append has_header_def)
  qed (simp_all add: emails_simps emails_append has_header_def)
qed

subsection \<open>The worker\<close>

lemma getEmails_eq:
  "getEmails L c cmd markAsRead delete s =
     (if concat cmd = [] then ([], s)
      else
        (case UIDFetch (Imap c) (set (concat cmd))
                [''INTERNALDATE'', ''BODY[]'', ''UID'', ''RFC822.HEADER''] s of
           (Inl err, s') \<Rightarrow>
             ([Fetch (set (concat cmd)) [''INTERNALDATE'', ''BODY[]'', ''UID'', ''RFC822.HEADER''],
               Send (Response_Err (Errorf ''unable to perform uid fetch: '' err))], s')
         | (Inr fCmd, s') \<Rightarrow>
             (case getEmails_loop L c markAsRead delete fCmd s' of
                (tr, s'') \<Rightarrow>
                  (Fetch (set (concat cmd))
                     [''INTERNALDATE'', ''BODY[]'', ''UID'', ''RFC822.HEADER''] # tr, s''))))"
proof -
  have "fold (\<lambda>rsp seq. fold (\<lambda>uid seq. AddNum seq uid) rsp seq) cmd {} = set (concat cmd)"
    by (simp only: fold_fold_AddNum Un_empty_right)
  then show ?thesis
    unfolding getEmails_def Let_def by (simp only: set_empty)
qed

lemma worker_search_fail:
  assumes "UIDSearch (Imap c) (findEmails_specs L search since) s = (Inl err, s1)"
  shows "generateMail_worker L c search since markAsRead delete s =
     ([Search (findEmails_specs L search since),
       Send (Response_Err (Errorf ''uid search failed: '' err)), Close], s1)"
  using assms by (simp add: generateMail_worker_def findEmails_def)

lemma worker_empty:
  assumes "UIDSearch (Imap c) (findEmails_specs L search since) s = (Inr cmd, s1)"
    and "concat cmd = []"
  shows "generateMail_worker L c search since markAsRead delete s =
     ([Search (findEmails_specs L search since), Close], s1)"
  using assms by (simp add: generateMail_worker_def findEmails_def getEmails_eq del: set_concat)

lemma worker_fetch_fail:
  assumes "UIDSearch (Imap c) (findEmails_specs L search since) s = (Inr cmd, s1)"
    and "concat cmd \<noteq> []"
    and "UIDFetch (Imap c) (set (concat cmd)) [''INTERNALDATE'', ''BODY[]'', ''UID'', ''RFC822.HEADER''] s1
           = (Inl err, s2)"
  shows "generateMail_worker L c search since markAsRead delete s =
     ([Search (findEmails_specs L search since),
       Fetch (set (concat cmd)) [''INTERNALDATE'', ''BODY[]'', ''UID'', ''RFC822.HEADER''],
       Send (Response_Err (Errorf ''unable to perform uid fetch: '' err)), Close], s2)"
  using assms by (simp add: generateMail_worker_def findEmails_def getEmails_eq del: set_concat)

lemma worker_fetched:
  assumes "UIDSearch (Imap c) (findEmails_specs L search since) s = (Inr cmd, s1)"
    and "concat cmd \<noteq> []"
    and "UIDFetch (Imap c) (set (concat cmd)) [''INTERNALDATE'', ''BODY[]'', ''UID'', ''RFC822.HEADER''] s1
           = (Inr recs, s2)"
    and "getEmails_loop L c markAsRead delete recs s2 = (tr, s3)"
  shows "generateMail_worker L c search since markAsRead delete s =
     (Search (findEmails_specs L search since) #
      Fetch (set (concat cmd)) [''INTERNALDATE'', ''BODY[]'', ''UID'', ''RFC822.HEADER''] #
      tr @ [Close], s3)"
  using assms by (simp add: generateMail_worker_def findEmails_def getEmails_eq del: set_concat)

lemma worker_cases [case_names search_fail empty fetch_fail fetched]:
  obtains
    (search_fail) err s1 where
      "UIDSearch (Imap c) (findEmails_specs L search since) s = (Inl err, s1)"
      "generateMail_worker L c search since markAsRead delete s =
         ([Search (findEmails_specs L search since),
           Send (Response_Err (Errorf ''uid search failed: '' err)), Close], s1)"
  | (empty) cmd s1 where
      "UIDSearch (Imap c) (findEmails_specs L search since) s = (Inr cmd, s1)" "concat cmd = []"
      "generateMail_worker L c search since markAsRead delete s =
         ([Search (findEmails_specs L search since), Close], s1)"
  | (fetch_fail) cmd s1 err s2 where
      "UIDSearch (Imap c) (findEmails_specs L search since) s = (Inr cmd, s1)" "concat cmd \<noteq> []"
      "UIDFetch (Imap c) (set (concat cmd)) [''INTERNALDATE'', ''BODY[]'', ''UID'', ''RFC822.HEADER''] s1
           = (Inl err, s2)"
      "generateMail_worker L c search since markAsRead delete s =
         ([Search (findEmails_specs L search since),
           Fetch (set (concat cmd)) [''INTERNALDATE'', ''BODY[]'', ''UID'', ''RFC822.HEADER''],
           Send (Response_Err (Errorf ''unable to perform uid fetch: '' err)), Close], s2)"
  | (fetched) cmd s1 recs s2 tr s3 where
      "UIDSearch (Imap c) (findEmails_specs L search since) s = (Inr cmd, s1)" "concat cmd \<noteq> []"
      "UIDFetch (Imap c) (set (concat cmd)) [''INTERNALDATE'', ''BODY[]'', ''UID'', ''RFC822.HEADER''] s1
           = (Inr recs, s2)"
      "getEmails_loop L c markAsRead delete recs s2 = (tr, s3)"
      "generateMail_worker L c search since markAsRead delete s =
         (Search (findEmails_specs L search since) #
          Fetch (set (concat cmd)) [''INTERNALDATE'', ''BODY[]'', ''UID'', ''RFC822.HEADER''] #
          tr @ [Close], s3)"
proof -
  obtain r s1 where u: "UIDSearch (Imap c) (findEmails_specs L search since) s = (r, s1)"
    by (cases "UIDSearch (Imap c) (findEmails_specs L search since) s")
  show ?thesis
  proof (cases r)
    case (Inl err)
    with u worker_search_fail [of c L search since s err s1] search_fail show ?thesis by blast
  next
    case (Inr cmd)
    show ?thesis
    proof (cases "concat cmd = []")
      case True
      with u Inr worker_empty [of c L search since s cmd s1] empty show ?thesis by blast
    next
      case False
      obtain f s2 where f: "UIDFetch (Imap c) (set (concat cmd))
          [''INTERNALDATE'', ''BODY[]'', ''UID'', ''RFC822.HEADER''] s1 = (f, s2)"
        by (cases "UIDFetch (Imap c) (set (concat cmd))
          [''INTERNALDATE'', ''BODY[]'', ''UID'', ''RFC822.HEADER''] s1")
      show ?thesis
      proof (cases f)
        case (Inl err)
        with u Inr False f worker_fetch_fail [of c L search since s cmd s1 err s2] fetch_fail
        show ?thesis by blast
      next
        case recs: (Inr recs)
        obtain tr s3 where "getEmails_loop L c markAsRead delete recs s2 = (tr, s3)"
          by (cases "getEmails_loop L c markAsRead delete recs s2")
        with u Inr False f recs worker_fetched [of c L search since s cmd s1 recs s2] fetched
        show ?thesis by blast
      qed
    qed
  qed
qed

subsection \<open>Runs without a failed store\<close>

lemma sent_no_errors: "errors tr = [] \<Longrightarrow> length (sent tr) = length (emails tr)"
  by (induction tr rule: sent.induct)
     (auto simp: errors_simps emails_simps split: option.splits)

lemma loop_all_ok:
  "getEmails_loop L c markAsRead delete recs s = (tr, s') \<Longrightarrow>
     \<forall>r\<in>set recs. well_formed L r \<Longrightarrow> \<forall>ev\<in>set tr. \<not> store_failed ev \<Longrightarrow>
     map Inr (emails tr) = map (newEmail L) recs \<and> errors tr = []"
proof (induction recs arbitrary: s tr s')
  case Nil
  then show ?case by (simp add: emails_simps errors_simps)
next
  case (Cons r recs)
  from Cons.prems(1) show ?case
  proof (cases rule: getEmails_loop_Cons_cases)
    case skip
    with Cons.prems(2) show ?thesis by (simp add: well_formed_def has_header_def)
  next
    case (parse err)
    with Cons.prems(2) show ?thesis by (simp add: well_formed_def)
  next
    case (unseen email err)
    with Cons.prems(3) show ?thesis by (simp add: unseen_store_def)
  next
    case (delete email err s1)
    with Cons.prems(3) show ?thesis by (simp add: unseen_store_def)
  next
    case (ok email s1 s2 tr')
    from ok(6) Cons.prems(3) have "\<forall>ev\<in>set tr'. \<not> store_failed ev" by simp
    with Cons.IH [OF ok(5)] Cons.prems(2)
    have "map Inr (emails tr') = map (newEmail L) recs \<and> errors tr' = []" by simp
    with ok(2,6) show ?thesis
      by (simp add: emails_simps errors_simps emails_append errors_append)
  qed
qed

lemma unseen_follows_Close: "unseen_follows tr \<Longrightarrow> unseen_follows (tr @ [Close])"
  by (induction tr rule: unseen_follows.induct) (auto split: option.splits list.splits)

subsection \<open>The example records\<close>

lemma example_records:
  "well_formed example_L (example_record n)" "newEmail example_L (example_record n) = Inr (example_email n)"
  "has_header (example_record n)" "\<not> has_header flags_only_record"
  "\<not> well_formed example_L (bad_record n)" "has_header (bad_record n)"
  "newEmail example_L (bad_record n) = Inl (ErrorString ''unable to read header: malformed header'')"
  by (simp_all add: well_formed_def has_header_def newEmail_def example_L_def example_record_def
      example_email_def index_def flags_only_record_def bad_record_def Errorf_def)

lemma record_headers:
  "example_record n ''RFC822.HEADER'' = Some (FieldString ''Subject: hi'')"
  "bad_record n ''RFC822.HEADER'' = Some (FieldString '': no name'')"
  "flags_only_record ''RFC822.HEADER'' = None"
  by (simp_all add: example_record_def bad_record_def flags_only_record_def)

subsection \<open>Errors and the seen flag in a whole run\<close>

lemma worker_errors:
  "\<exists>pre. fst (generateMail_worker L c search since markAsRead delete s) = pre @ [Close]
     \<and> Close \<notin> set pre
     \<and> (errors pre = [] \<or>
         (\<exists>pre' p e. pre = pre' @ [Send (Response_Err (Errorf p e))] \<and> p \<in> set fatal_prefixes
            \<and> errors pre' = []))"
proof (cases rule: worker_cases [of c L search since s markAsRead delete])
  case (search_fail err s1)
  let ?pre = "[Search (findEmails_specs L search since),
               Send (Response_Err (Errorf ''uid search failed: '' err))]"
  have "fst (generateMail_worker L c search since markAsRead delete s) = ?pre @ [Close]"
    using search_fail(2) by simp
  moreover have "Close \<notin> set ?pre" by simp
  moreover have "?pre = [Search (findEmails_specs L search since)]
      @ [Send (Response_Err (Errorf ''uid search failed: '' err))]" by simp
  moreover have "''uid search failed: '' \<in> set fatal_prefixes"
    by (simp add: fatal_prefixes_def)
  moreover have "errors [Search (findEmails_specs L search since)] = []"
    by (simp add: errors_simps)
  ultimately show ?thesis by blast
next
  case (empty cmd s1)
  have "fst (generateMail_worker L c search since markAsRead delete s)
          = [Search (findEmails_specs L search since)] @ [Close]"
    using empty(3) by simp
  moreover have "Close \<notin> set [Search (findEmails_specs L search since)]" by simp
  moreover have "errors [Search (findEmails_specs L search since)] = []"
    by (simp add: errors_simps)
  ultimately show ?thesis by blast
next
  case (fetch_fail cmd s1 err s2)
  let ?pre' = "[Search (findEmails_specs L search since),
       Fetch (set (concat cmd)) [''INTERNALDATE'', ''BODY[]'', ''UID'', ''RFC822.HEADER'']]"
  let ?pre = "?pre' @ [Send (Response_Err (Errorf ''unable to perform uid fetch: '' err))]"
  have "fst (generateMail_worker L c search since markAsRead delete s) = ?pre @ [Close]"
    using fetch_fail(4) by simp
  moreover have "Close \<notin> set ?pre" by simp
  moreover have "''unable to perform uid fetch: '' \<in> set fatal_prefixes"
    by (simp add: fatal_prefixes_def)
  moreover have "errors ?pre' = []"
    by (simp add: errors_simps)
  ultimately show ?thesis by blast
next
  case (fetched cmd s1 recs s2 tr s3)
  let ?hd = "[Search (findEmails_specs L search since),
       Fetch (set (concat cmd)) [''INTERNALDATE'', ''BODY[]'', ''UID'', ''RFC822.HEADER'']]"
  have run: "fst (generateMail_worker L c search since markAsRead delete s) = (?hd @ tr) @ [Close]"
    using fetched(5) by simp
  have nc: "Close \<notin> set (?hd @ tr)"
    using loop_no_Close [OF fetched(4)] by simp
  have hd: "errors ?hd = []" by (simp add: errors_simps)
  from loop_errors [OF fetched(4)] show ?thesis
  proof
    assume "errors tr = []"
    with hd have "errors (?hd @ tr) = []" by (simp only: errors_append) simp
    with run nc show ?thesis by blast
  next
    assume "\<exists>pre p e. tr = pre @ [Send (Response_Err (Errorf p e))] \<and> p \<in> set fatal_prefixes
        \<and> errors pre = []"
    then obtain pre p e where pre: "tr = pre @ [Send (Response_Err (Errorf p e))]"
      "p \<in> set fatal_prefixes" "errors pre = []" by blast
    have "?hd @ tr = (?hd @ pre) @ [Send (Response_Err (Errorf p e))]"
      using pre(1) by simp
    moreover have "errors (?hd @ pre) = []"
      using hd pre(3) by (simp only: errors_append) simp
    ultimately show ?thesis using run nc pre(2) by blast
  qed
qed

lemma worker_unseen_follows:
  "unseen_follows (fst (generateMail_worker L c search since False delete s))
   \<and> length (filter is_unseen_store (fst (generateMail_worker L c search since False delete s)))
       = length (emails (fst (generateMail_worker L c search since False delete s)))"
proof (cases rule: worker_cases [of c L search since s False delete])
  case (search_fail err s1)
  then show ?thesis by (simp add: emails_simps)
next
  case (empty cmd s1)
  then show ?thesis by (simp add: emails_simps)
next
  case (fetch_fail cmd s1 err s2)
  then show ?thesis by (simp add: emails_simps)
next
  case (fetched cmd s1 recs s2 tr s3)
  from loop_unseen_follows [OF fetched(4)] unseen_follows_Close [of tr]
  show ?thesis
    by (simp add: fetched(5) emails_simps emails_append)
qed

lemma worker_unseen_fail:
  assumes "Store seq ''-FLAGS'' (CHR 0x5C # ''SEEN'') (Some err)
             \<in> set (fst (generateMail_worker L c search since False delete s))"
  shows "\<exists>pre email. fst (generateMail_worker L c search since False delete s)
            = pre @ [Send (Response_Email email), unseen_store email (Some err),
                     Send (Response_Err (Errorf ''unable to remove seen flag: '' err)), Close]
          \<and> seq = {AsNumber (ID email)} \<and> errors pre = []"
proof (cases rule: worker_cases [of c L search since s False delete])
  case (search_fail err s1)
  with assms show ?thesis by simp
next
  case (empty cmd s1)
  with assms show ?thesis by simp
next
  case (fetch_fail cmd s1 err s2)
  with assms show ?thesis by simp
next
  case (fetched cmd s1 recs s2 tr s3)
  let ?hd = "[Search (findEmails_specs L search since),
       Fetch (set (concat cmd)) [''INTERNALDATE'', ''BODY[]'', ''UID'', ''RFC822.HEADER'']]"
  from assms fetched(5) have "Store seq ''-FLAGS'' (CHR 0x5C # ''SEEN'') (Some err) \<in> set tr"
    by simp
  from loop_unseen_fail [OF fetched(4) this]
  obtain pre email where pre:
    "tr = pre @ [Send (Response_Email email), unseen_store email (Some err),
                 Send (Response_Err (Errorf ''unable to remove seen flag: '' err))]"
    "seq = {AsNumber (ID email)}" "errors pre = []" by blast
  have "fst (generateMail_worker L c search since False delete s)
          = (?hd @ pre) @ [Send (Response_Email email), unseen_store email (Some err),
                     Send (Response_Err (Errorf ''unable to remove seen flag: '' err)), Close]"
    using fetched(5) pre(1) by simp
  moreover have "errors (?hd @ pre) = []"
    using pre(3) by (simp only: errors_append) (simp add: errors_simps)
  ultimately show ?thesis using pre(2) by blast
qed

lemma worker_prefix:
  assumes "UIDSearch (Imap c) (findEmails_specs L search since) s = (Inr cmd, s1)"
    and "concat cmd \<noteq> []"
    and "UIDFetch (Imap c) (set (concat cmd))
           [''INTERNALDATE'', ''BODY[]'', ''UID'', ''RFC822.HEADER''] s1 = (Inr recs, s2)"
  shows "map Inr (emails (fst (generateMail_worker L c search since markAsRead delete s)))
           = take (length (emails (fst (generateMail_worker L c search since markAsRead delete s))))
               (map (newEmail L) (filter has_header recs))"
proof -
  obtain tr s3 where loop: "getEmails_loop L c markAsRead delete recs s2 = (tr, s3)"
    by (cases "getEmails_loop L c markAsRead delete recs s2")
  have "emails (fst (generateMail_worker L c search since markAsRead delete s)) = emails tr"
    using worker_fetched [OF assms loop] by (simp add: emails_simps emails_append)
  with loop_prefix [OF loop] show ?thesis by simp
qed

subsection \<open>The loop of VisibleText\<close>

lemma nonVisibleTags_loop_set:
  "nonVisibleTags_loop tn isStart tags skip = (if tn \<in> set tags then isStart else skip)"
  by (induction tags) auto

lemma set_nonVisibleTags: "set nonVisibleTags = non_visible_names"
  by (auto simp: nonVisibleTags_def non_visible_names_def styleTag_def scriptTag_def headTag_def
      metaTag_def doctypeTag_def shapeTag_def imageDataTag_def commentTag_def)

lemma VisibleText_loop_step:
  assumes "Next z = (tt, z')" and "\<not> is_ErrorToken tt"
  shows "VisibleText_loop TrimSpace Next z acc skip
           = VisibleText_loop TrimSpace Next z'
               (snd (flat_flag_step TrimSpace (skip, acc) tt))
               (fst (flat_flag_step TrimSpace (skip, acc) tt))"
  using assms
  by (subst VisibleText_loop.simps)
     (cases tt; simp add: nonVisibleTags_loop_set set_nonVisibleTags Let_def)

lemma VisibleText_loop_error:
  assumes "Next z = (ErrorToken err, z')"
  shows "VisibleText_loop TrimSpace Next z acc skip = Some (acc, returned_error err)"
  using assms by (subst VisibleText_loop.simps) (simp add: returned_error_def)

lemma VisibleText_loop_run:
  "tokens_from Next z (Suc n) = toks @ [ErrorToken err] \<Longrightarrow>
   \<forall>t\<in>set toks. \<not> is_ErrorToken t \<Longrightarrow>
     VisibleText_loop TrimSpace Next z acc skip
       = Some (snd (foldl (flat_flag_step TrimSpace) (skip, acc) toks), returned_error err)"
proof (induction toks arbitrary: z n acc skip)
  case Nil
  then have "fst (Next z) = ErrorToken err" by simp
  then have "Next z = (ErrorToken err, snd (Next z))" by (metis prod.collapse)
  then show ?case
    by (simp add: VisibleText_loop_error [where Next = Next and z = z])
next
  case (Cons t toks)
  from Cons.prems(1) have t: "fst (Next z) = t"
    and rest: "tokens_from Next (snd (Next z)) n = toks @ [ErrorToken err]" by simp_all
  from rest obtain m where n: "n = Suc m" by (cases n) auto
  from t have nz: "Next z = (t, snd (Next z))" by (metis prod.collapse)
  from Cons.prems(2) have ne: "\<not> is_ErrorToken t" and ne': "\<forall>t\<in>set toks. \<not> is_ErrorToken t"
    by simp_all
  obtain sk tx where st: "flat_flag_step TrimSpace (skip, acc) t = (sk, tx)"
    by (cases "flat_flag_step TrimSpace (skip, acc) t")
  have "VisibleText_loop TrimSpace Next z acc skip
          = VisibleText_loop TrimSpace Next (snd (Next z)) tx sk"
    using nz ne st
    by (simp add: VisibleText_loop_step [where Next = Next and z = z and tt = t])
  also have "\<dots> = Some (snd (foldl (flat_flag_step TrimSpace) (sk, tx) toks), returned_error err)"
    using Cons.IH [OF rest [unfolded n] ne'] .
  finally show ?case using st by simp
qed

subsection \<open>Failures after a prefix of the records\<close>

lemma loop_append:
  "getEmails_loop L c markAsRead delete xs s = (tr, s1) \<Longrightarrow> errors tr = [] \<Longrightarrow>
   getEmails_loop L c markAsRead delete ys s1 = (tr', s') \<Longrightarrow>
     getEmails_loop L c markAsRead delete (xs @ ys) s = (tr @ tr', s')"
proof (induction xs arbitrary: s tr)
  case Nil
  then show ?case by simp
next
  case (Cons r xs)
  from Cons.prems(1) show ?case
  proof (cases rule: getEmails_loop_Cons_cases)
    case skip
    with Cons.IH [OF skip(2) Cons.prems(2,3)] show ?thesis by simp
  next
    case (parse err)
    with Cons.prems(2) show ?thesis by (simp add: errors_simps)
  next
    case (unseen email err)
    with Cons.prems(2) show ?thesis by (simp add: errors_simps)
  next
    case (delete email err s0)
    with Cons.prems(2) show ?thesis by (simp add: errors_simps errors_append)
  next
    case (ok email s0 s2 tr0)
    have "errors tr0 = []"
      using Cons.prems(2) ok(6) by (auto simp: errors_simps errors_append split: if_splits)
    from Cons.IH [OF ok(5) this Cons.prems(3)] ok show ?thesis
      by (auto simp: SetAsUnread_def DeleteEmail_def alterEmail_eq unseen_store_def)
  qed
qed

lemma loop_parse_fail:
  "r ''RFC822.HEADER'' \<noteq> None \<Longrightarrow> newEmail L r = Inl err \<Longrightarrow>
     getEmails_loop L c markAsRead delete (r # ys) s
       = ([Send (Response_Err (Errorf ''unable to parse email: '' err))], s)"
  by auto

lemma loop_unseen_store_fail:
  "r ''RFC822.HEADER'' \<noteq> None \<Longrightarrow> newEmail L r = Inr email \<Longrightarrow> \<not> markAsRead \<Longrightarrow>
   UIDStore (Imap c) {AsNumber (ID email)} ''-FLAGS'' (CHR 0x5C # ''SEEN'') s = (Some err, s') \<Longrightarrow>
     getEmails_loop L c markAsRead delete (r # ys) s
       = ([Send (Response_Email email), unseen_store email (Some err),
           Send (Response_Err (Errorf ''unable to remove seen flag: '' err))], s')"
  by (auto simp: SetAsUnread_def alterEmail_eq unseen_store_def)

lemma loop_delete_store_fail:
  "r ''RFC822.HEADER'' \<noteq> None \<Longrightarrow> newEmail L r = Inr email \<Longrightarrow> delete \<Longrightarrow>
   markAsRead \<and> s1 = s \<or> \<not> markAsRead \<and>
     UIDStore (Imap c) {AsNumber (ID email)} ''-FLAGS'' (CHR 0x5C # ''SEEN'') s = (None, s1) \<Longrightarrow>
   UIDStore (Imap c) {AsNumber (ID email)} ''+FLAGS'' (CHR 0x5C # ''DELETED'') s1 = (Some err, s') \<Longrightarrow>
     getEmails_loop L c markAsRead delete (r # ys) s
       = (Send (Response_Email email) # (if markAsRead then [] else [unseen_store email None])
            @ [Store {AsNumber (ID email)} ''+FLAGS'' (CHR 0x5C # ''DELETED'') (Some err),
               Send (Response_Err (Errorf ''unable to delete email: '' err))], s')"
  by (auto simp: SetAsUnread_def DeleteEmail_def alterEmail_eq unseen_store_def)

lemma worker_sent_fetched:
  assumes "UIDSearch (Imap c) (findEmails_specs L search since) s = (Inr cmd, s1)"
    and "concat cmd \<noteq> []"
    and "UIDFetch (Imap c) (set (concat cmd))
           [''INTERNALDATE'', ''BODY[]'', ''UID'', ''RFC822.HEADER''] s1 = (Inr (xs @ ys), s2)"
    and "getEmails_loop L c markAsRead delete xs s2 = (tr, s3)"
    and "errors tr = []"
    and "getEmails_loop L c markAsRead delete ys s3 = (tr', s')"
  shows "sent (fst (generateMail_worker L c search since markAsRead delete s))
           = sent tr @ sent tr'"
  using worker_fetched [OF assms(1-3) loop_append [OF assms(4-6)]]
  by (simp add: sent_append)

section \<open>The claims\<close>


text \<open>
  Claim C8. When the search succeeds and its responses hold no identifier, the worker
  issues the search and closes the channel: nothing is sent (no email and no error) and no
  fetch and no store is issued.
\<close>

theorem empty_search_closes:
  assumes "fst (UIDSearch (Imap c) (findEmails_specs L search since) s) = Inr cmd"
    and "concat cmd = []"
  shows "fst (fst (generateMail L c search since markAsRead delete s))
           = [Search (findEmails_specs L search since), Close]
         \<and> sent (fst (fst (generateMail L c search since markAsRead delete s))) = []
         \<and> filter (\<lambda>ev. is_Fetch ev \<or> is_Store ev)
              (fst (fst (generateMail L c search since markAsRead delete s))) = []"
proof -
  from assms(1) obtain s1 where
    "UIDSearch (Imap c) (findEmails_specs L search since) s = (Inr cmd, s1)"
    by (cases "UIDSearch (Imap c) (findEmails_specs L search since) s") auto
  from worker_empty [OF this assms(2)] show ?thesis
    by (simp add: generateMail_def)
qed

text \<open>A search since a date that finds nothing, with the unread and delete steps switched
  on.\<close>

theorem empty_search_closes_witness:
  "fst (UIDSearch (Imap (example_Client (Inr [[], []]) (Inr [example_record 1]) 0))
          (findEmails_specs example_L '''' (Some 5)) 0) = Inr [[], []]
   \<and> concat [[], [] :: uid list] = []
   \<and> fst (fst (generateMail example_L (example_Client (Inr [[], []]) (Inr [example_record 1]) 0)
        '''' (Some 5) False True 0)) = [Search [''SINCE'', ''01-Nov-2026''], Close]"
  using empty_search_closes [of "example_Client (Inr [[], []]) (Inr [example_record 1]) 0"
      example_L "''''" "Some 5" 0 "[[], []]" False True]
  by (simp add: example_Client_def example_Imap_def findEmails_specs_def example_L_def)

text \<open>
  Claim C1, amended. When the search succeeds with at least one identifier, the one
  fetch returns \<open>N\<close> records, each with the header field and a message that parses, and
  every store issued during the run succeeds (none is issued when \<open>markAsRead\<close> is true and
  \<open>delete\<close> is false), then the stream holds exactly \<open>N\<close> responses, all of them emails and
  none an error, and the emails are those of the records in the order of the fetch result.
\<close>

theorem all_records_emitted:
  assumes "UIDSearch (Imap c) (findEmails_specs L search since) s = (Inr cmd, s1)"
    and "concat cmd \<noteq> []"
    and "UIDFetch (Imap c) (set (concat cmd))
           [''INTERNALDATE'', ''BODY[]'', ''UID'', ''RFC822.HEADER''] s1 = (Inr recs, s2)"
    and "\<forall>r\<in>set recs. well_formed L r"
    and "\<forall>ev\<in>set (fst (fst (generateMail L c search since markAsRead delete s))).
           \<not> store_failed ev"
  shows "map Inr (emails (fst (fst (generateMail L c search since markAsRead delete s))))
           = map (newEmail L) recs
         \<and> errors (fst (fst (generateMail L c search since markAsRead delete s))) = []
         \<and> length (sent (fst (fst (generateMail L c search since markAsRead delete s))))
             = length recs"
proof -
  obtain tr s3 where loop: "getEmails_loop L c markAsRead delete recs s2 = (tr, s3)"
    by (cases "getEmails_loop L c markAsRead delete recs s2")
  let ?run = "fst (fst (generateMail L c search since markAsRead delete s))"
  have run: "?run = Search (findEmails_specs L search since) #
      Fetch (set (concat cmd)) [''INTERNALDATE'', ''BODY[]'', ''UID'', ''RFC822.HEADER''] #
      tr @ [Close]"
    using worker_fetched [OF assms(1-3) loop] by (simp add: generateMail_def)
  with assms(5) have "\<forall>ev\<in>set tr. \<not> store_failed ev" by simp
  from loop_all_ok [OF loop assms(4) this]
  have ok: "map Inr (emails tr) = map (newEmail L) recs" "errors tr = []" by simp_all
  have em: "emails ?run = emails tr" and er: "errors ?run = errors tr"
    by (simp_all add: run emails_simps emails_append errors_simps errors_append)
  have "length (sent ?run) = length (emails ?run)"
    using er ok(2) by (simp add: sent_no_errors)
  also have "\<dots> = length recs"
    using ok(1) em by (metis length_map)
  finally show ?thesis using ok em er by simp
qed

text \<open>Two records, the seen flag removed and the messages deleted, every store
  succeeding.\<close>

theorem all_records_emitted_witness:
  "UIDSearch (Imap (example_Client (Inr [[1], [2]]) (Inr [example_record 1, example_record 2]) 0))
      (findEmails_specs example_L ''ALL'' None) 0 = (Inr [[1], [2]], 0)
   \<and> concat [[1], [2 :: uid]] \<noteq> []
   \<and> list_all (well_formed example_L) [example_record 1, example_record 2]
   \<and> list_all (\<lambda>ev. \<not> store_failed ev)
        (fst (fst (generateMail example_L
           (example_Client (Inr [[1], [2]]) (Inr [example_record 1, example_record 2]) 0)
           ''ALL'' None False True 0)))
   \<and> emails (fst (fst (generateMail example_L
           (example_Client (Inr [[1], [2]]) (Inr [example_record 1, example_record 2]) 0)
           ''ALL'' None False True 0))) = [example_email 1, example_email 2]
   \<and> length (sent (fst (fst (generateMail example_L
           (example_Client (Inr [[1], [2]]) (Inr [example_record 1, example_record 2]) 0)
           ''ALL'' None False True 0)))) = 2"
proof -
  let ?c = "example_Client (Inr [[1], [2]]) (Inr [example_record 1, example_record 2]) 0"
  let ?run = "fst (fst (generateMail example_L ?c ''ALL'' None False True 0))"
  have run: "?run =
    [Search [''ALL''],
     Fetch {1, 2} [''INTERNALDATE'', ''BODY[]'', ''UID'', ''RFC822.HEADER''],
     Send (Response_Email (example_email 1)),
     Store {1} ''-FLAGS'' (CHR 0x5C # ''SEEN'') None,
     Store {1} ''+FLAGS'' (CHR 0x5C # ''DELETED'') None,
     Send (Response_Email (example_email 2)),
     Store {2} ''-FLAGS'' (CHR 0x5C # ''SEEN'') None,
     Store {2} ''+FLAGS'' (CHR 0x5C # ''DELETED'') None,
     Close]"
    by (simp add: generateMail_def generateMail_worker_def findEmails_def findEmails_specs_def
        getEmails_eq example_records record_headers
        SetAsUnread_def DeleteEmail_def alterEmail_eq example_Client_def example_Imap_def
        example_email_def insert_commute)
  have h1: "UIDSearch (Imap ?c) (findEmails_specs example_L ''ALL'' None) 0 = (Inr [[1], [2]], 0)"
    by (simp add: example_Client_def example_Imap_def)
  have h2: "concat [[1], [2 :: uid]] \<noteq> []" by simp
  have h3: "UIDFetch (Imap ?c) (set (concat [[1], [2]]))
           [''INTERNALDATE'', ''BODY[]'', ''UID'', ''RFC822.HEADER''] 0
           = (Inr [example_record 1, example_record 2], 0)"
    by (simp add: example_Client_def example_Imap_def)
  have h4: "\<forall>r\<in>set [example_record 1, example_record 2]. well_formed example_L r"
    by (simp add: example_records)
  have h5: "\<forall>ev\<in>set ?run. \<not> store_failed ev"
    by (simp only: run) simp
  note res = all_records_emitted [OF h1 h2 h3 h4 h5]
  from res have "(map Inr (emails ?run) :: (error + bytes Email) list)
      = map Inr [example_email 1, example_email 2]"
    by (simp add: example_records)
  then have "emails ?run = [example_email 1, example_email 2]"
    by (simp only: inj_map_eq_map [OF inj_Inr])
  with res h1 h2 h4 h5 show ?thesis
    by (simp add: list_all_iff)
qed

text \<open>
  Claim C1 as stated does not hold: with \<open>markAsRead\<close> false and a store that fails, a
  fetch of two well-formed records gives a stream of one email and one error.
\<close>

theorem all_records_emitted_counterexample:
  "UIDSearch (Imap (example_Client (Inr [[1, 2]]) (Inr [example_record 1, example_record 2]) 1))
      (findEmails_specs example_L ''ALL'' None) 0 = (Inr [[1, 2]], 0)
   \<and> UIDFetch (Imap (example_Client (Inr [[1, 2]]) (Inr [example_record 1, example_record 2]) 1))
      (set (concat [[1, 2]])) [''INTERNALDATE'', ''BODY[]'', ''UID'', ''RFC822.HEADER''] 0
       = (Inr [example_record 1, example_record 2], 0)
   \<and> well_formed example_L (example_record 1) \<and> well_formed example_L (example_record 2)
   \<and> sent (fst (fst (GenerateAll example_L
         (example_Client (Inr [[1, 2]]) (Inr [example_record 1, example_record 2]) 1)
         False False 0)))
       = [Response_Email (example_email 1),
          Response_Err (ErrorString ''unable to remove seen flag: connection closed'')]
   \<and> length (emails (fst (fst (GenerateAll example_L
         (example_Client (Inr [[1, 2]]) (Inr [example_record 1, example_record 2]) 1)
         False False 0)))) = 1"
  by (simp add: GenerateAll_def generateMail_def generateMail_worker_def findEmails_def
      findEmails_specs_def getEmails_eq example_records record_headers
      SetAsUnread_def DeleteEmail_def alterEmail_eq example_Client_def example_Imap_def
      emails_simps Errorf_def)

text \<open>
  Claim C4, amended. A fetched record without the header field is skipped: the run over
  a fetch result with such a record inserted anywhere is the run over the result without
  it, with the same events and the same last state, so the record gives no response, no
  store and no error. When the other \<open>N\<close> records are well formed and every store issued
  succeeds, exactly \<open>N\<close> emails are sent, in the order of the records, and no error.
\<close>

theorem partial_record_skipped:
  assumes "\<not> has_header p"
  shows "getEmails_loop L c markAsRead delete (xs @ p # ys) s
           = getEmails_loop L c markAsRead delete (xs @ ys) s
         \<and> ((\<forall>r\<in>set (xs @ ys). well_formed L r)
              \<and> (\<forall>ev\<in>set (fst (getEmails_loop L c markAsRead delete (xs @ p # ys) s)).
                    \<not> store_failed ev) \<longrightarrow>
            map Inr (emails (fst (getEmails_loop L c markAsRead delete (xs @ p # ys) s)))
              = map (newEmail L) (xs @ ys)
            \<and> errors (fst (getEmails_loop L c markAsRead delete (xs @ p # ys) s)) = []
            \<and> length (sent (fst (getEmails_loop L c markAsRead delete (xs @ p # ys) s)))
                = length (xs @ ys))"
proof -
  from assms have hdr: "p ''RFC822.HEADER'' = None" by (simp add: has_header_def)
  have same: "getEmails_loop L c markAsRead delete (xs @ p # ys) s
           = getEmails_loop L c markAsRead delete (xs @ ys) s"
    using hdr by (rule loop_skip)
  obtain tr s' where loop: "getEmails_loop L c markAsRead delete (xs @ ys) s = (tr, s')"
    by (cases "getEmails_loop L c markAsRead delete (xs @ ys) s")
  have "map Inr (emails tr) = map (newEmail L) (xs @ ys) \<and> errors tr = []
          \<and> length (sent tr) = length (xs @ ys)"
    if wf: "\<forall>r\<in>set (xs @ ys). well_formed L r" and st: "\<forall>ev\<in>set tr. \<not> store_failed ev"
  proof -
    from loop_all_ok [OF loop wf st]
    have ok: "map Inr (emails tr) = map (newEmail L) (xs @ ys)" "errors tr = []" by simp_all
    have "length (sent tr) = length (emails tr)" using ok(2) by (rule sent_no_errors)
    also have "\<dots> = length (xs @ ys)" using ok(1) by (metis length_map)
    finally show ?thesis using ok by simp
  qed
  with same loop show ?thesis by simp
qed

text \<open>A record with flags only between two well-formed records, every store succeeding:
  the run is that of the two records, and both emails are sent.\<close>

theorem partial_record_skipped_witness:
  "\<not> has_header flags_only_record
   \<and> list_all (well_formed example_L) ([example_record 1] @ [example_record 2])
   \<and> list_all (\<lambda>ev. \<not> store_failed ev)
        (fst (getEmails_loop example_L (example_Client (Inr []) (Inr []) 0) False False
           ([example_record 1] @ flags_only_record # [example_record 2]) 0))
   \<and> getEmails_loop example_L (example_Client (Inr []) (Inr []) 0) False False
        ([example_record 1] @ flags_only_record # [example_record 2]) 0
      = getEmails_loop example_L (example_Client (Inr []) (Inr []) 0) False False
        ([example_record 1] @ [example_record 2]) 0
   \<and> emails (fst (getEmails_loop example_L (example_Client (Inr []) (Inr []) 0) False False
        ([example_record 1] @ flags_only_record # [example_record 2]) 0))
      = [example_email 1, example_email 2]"
proof -
  let ?c = "example_Client (Inr []) (Inr []) 0"
  let ?run = "fst (getEmails_loop example_L ?c False False
           ([example_record 1] @ flags_only_record # [example_record 2]) 0)"
  have run: "?run =
    [Send (Response_Email (example_email 1)),
     Store {1} ''-FLAGS'' (CHR 0x5C # ''SEEN'') None,
     Send (Response_Email (example_email 2)),
     Store {2} ''-FLAGS'' (CHR 0x5C # ''SEEN'') None]"
    by (simp add: example_records record_headers SetAsUnread_def alterEmail_eq
        example_Client_def example_Imap_def example_email_def)
  have h1: "\<not> has_header flags_only_record" by (simp add: example_records)
  have h2: "\<forall>r\<in>set ([example_record 1] @ [example_record 2]). well_formed example_L r"
    by (simp add: example_records)
  have h3: "\<forall>ev\<in>set ?run. \<not> store_failed ev"
    by (simp only: run) simp
  note res = partial_record_skipped [OF h1, of example_L ?c False False "[example_record 1]"
      "[example_record 2]" 0]
  from res h2 h3 have "map Inr (emails ?run)
      = map (newEmail example_L) ([example_record 1] @ [example_record 2])"
    by blast
  then have "(map Inr (emails ?run) :: (error + bytes Email) list)
      = map Inr [example_email 1, example_email 2]"
    by (simp add: example_records del: getEmails_loop.simps)
  then have "emails ?run = [example_email 1, example_email 2]"
    by (simp only: inj_map_eq_map [OF inj_Inr])
  with res h1 h2 h3 show ?thesis
    by (simp add: list_all_iff del: getEmails_loop.simps)
qed

text \<open>
  Claim C4 as stated does not hold: with deletion requested and a store that fails, two
  well-formed records with a flags-only record between them give one email and one error.
\<close>

theorem partial_record_skipped_counterexample:
  "\<not> has_header flags_only_record
   \<and> well_formed example_L (example_record 1) \<and> well_formed example_L (example_record 2)
   \<and> sent (fst (getEmails_loop example_L (example_Client (Inr []) (Inr []) 1) True True
        [example_record 1, flags_only_record, example_record 2] 0))
      = [Response_Email (example_email 1),
         Response_Err (ErrorString ''unable to delete email: connection closed'')]
   \<and> length (emails (fst (getEmails_loop example_L (example_Client (Inr []) (Inr []) 1) True True
        [example_record 1, flags_only_record, example_record 2] 0))) = 1"
  by (simp add: example_records record_headers SetAsUnread_def DeleteEmail_def alterEmail_eq
      example_Client_def example_Imap_def emails_simps Errorf_def)

text \<open>
  Claim C2. In every retrieval call the channel is closed exactly once, as the last act
  of the worker. At most one response with an error is sent; when one is sent it is the
  last response, under one of the five wrappers (search, fetch, parse, removal of the seen
  flag, deletion), and the close follows it at once: after the error no response is sent
  and no store is issued. The records that follow the failing one are not looked at: once
  the loop has sent an error for a list of records, it does the same for every longer
  list.
\<close>

theorem error_is_terminal:
  "(\<exists>pre. fst (fst (generateMail L c search since markAsRead delete s)) = pre @ [Close]
      \<and> Close \<notin> set pre
      \<and> (errors pre = [] \<or>
          (\<exists>pre' p e. pre = pre' @ [Send (Response_Err (Errorf p e))]
             \<and> p \<in> set fatal_prefixes \<and> errors pre' = [])))
   \<and> length (errors (fst (fst (generateMail L c search since markAsRead delete s)))) \<le> 1
   \<and> (errors (fst (getEmails_loop L c markAsRead delete xs s0)) \<noteq> [] \<longrightarrow>
        getEmails_loop L c markAsRead delete (xs @ ys) s0
          = getEmails_loop L c markAsRead delete xs s0)"
proof -
  let ?run = "fst (fst (generateMail L c search since markAsRead delete s))"
  have run: "?run = fst (generateMail_worker L c search since markAsRead delete s)"
    by (simp add: generateMail_def)
  from worker_errors [of L c search since markAsRead delete s] run
  obtain pre where pre: "?run = pre @ [Close]" "Close \<notin> set pre"
    "errors pre = [] \<or>
       (\<exists>pre' p e. pre = pre' @ [Send (Response_Err (Errorf p e))]
          \<and> p \<in> set fatal_prefixes \<and> errors pre' = [])"
    by auto
  have "length (errors pre) \<le> 1"
    using pre(3) by (auto simp: errors_append errors_simps)
  then have one: "length (errors ?run) \<le> 1"
    by (simp only: pre(1) errors_append) (simp add: errors_simps)
  have stop: "getEmails_loop L c markAsRead delete (xs @ ys) s0
          = getEmails_loop L c markAsRead delete xs s0"
    if "errors (fst (getEmails_loop L c markAsRead delete xs s0)) \<noteq> []"
  proof -
    obtain tr s' where loop: "getEmails_loop L c markAsRead delete xs s0 = (tr, s')"
      by (cases "getEmails_loop L c markAsRead delete xs s0")
    with that have "errors tr \<noteq> []" by simp
    from loop_stop [OF loop this] loop show ?thesis by simp
  qed
  from pre one stop show ?thesis by blast
qed

text \<open>Three records of which the second does not parse: the first email and the parse
  error are sent, and the third record changes nothing.\<close>

theorem error_is_terminal_witness:
  "errors (fst (getEmails_loop example_L
       (example_Client (Inr [[1, 2, 3]])
          (Inr [example_record 1, bad_record 2, example_record 3]) 0) True False
       [example_record 1, bad_record 2] 0)) \<noteq> []
   \<and> getEmails_loop example_L
       (example_Client (Inr [[1, 2, 3]])
          (Inr [example_record 1, bad_record 2, example_record 3]) 0) True False
        ([example_record 1, bad_record 2] @ [example_record 3]) 0
      = ([Send (Response_Email (example_email 1)),
          Send (Response_Err (ErrorString
            ''unable to parse email: unable to read header: malformed header''))], 0)
   \<and> length (errors (fst (fst (generateMail example_L
        (example_Client (Inr [[1, 2, 3]])
           (Inr [example_record 1, bad_record 2, example_record 3]) 0)
        ''ALL'' None True False 0)))) \<le> 1"
proof -
  let ?c = "example_Client (Inr [[1, 2, 3]])
              (Inr [example_record 1, bad_record 2, example_record 3]) 0"
  have loop: "getEmails_loop example_L ?c True False [example_record 1, bad_record 2] 0
      = ([Send (Response_Email (example_email 1)),
          Send (Response_Err (ErrorString
            ''unable to parse email: unable to read header: malformed header''))], 0)"
    by (simp add: example_records record_headers Errorf_def)
  have h: "errors (fst (getEmails_loop example_L ?c True False
             [example_record 1, bad_record 2] 0)) \<noteq> []"
    by (simp only: loop) (simp add: errors_simps)
  from error_is_terminal [of example_L ?c "''ALL''" None True False 0
      "[example_record 1, bad_record 2]" 0 "[example_record 3]"] h loop
  show ?thesis by (simp only:) simp
qed

text \<open>
  Claim C3. With \<open>markAsRead\<close> false, every email sent is followed at once by the store
  that removes the seen flag (\<open>UIDStore\<close> with \<open>-FLAGS\<close> and \<open>\SEEN\<close>) on the one-element
  set of that email's identifier, and there are as many such stores as emails sent. When
  such a store fails, the run ends with the email, the failed store, the error response
  \<open>unable to remove seen flag: ...\<close> and the close, and no error was sent before; the
  emails sent are those of the first \<open>k\<close> records that have the header field, where \<open>k\<close> is
  the number of emails sent, so no later record is sent or changed.
\<close>

theorem unread_store_follows_each_email:
  "unseen_follows (fst (fst (generateMail L c search since False delete s)))
   \<and> length (filter is_unseen_store (fst (fst (generateMail L c search since False delete s))))
       = length (emails (fst (fst (generateMail L c search since False delete s))))
   \<and> (Store seq ''-FLAGS'' (CHR 0x5C # ''SEEN'') (Some err)
         \<in> set (fst (fst (generateMail L c search since False delete s))) \<longrightarrow>
       (\<exists>pre email. fst (fst (generateMail L c search since False delete s))
            = pre @ [Send (Response_Email email), unseen_store email (Some err),
                     Send (Response_Err (Errorf ''unable to remove seen flag: '' err)), Close]
          \<and> seq = {AsNumber (ID email)} \<and> errors pre = []))
   \<and> (UIDSearch (Imap c) (findEmails_specs L search since) s = (Inr cmd, s1)
       \<and> concat cmd \<noteq> []
       \<and> UIDFetch (Imap c) (set (concat cmd))
           [''INTERNALDATE'', ''BODY[]'', ''UID'', ''RFC822.HEADER''] s1 = (Inr recs, s2) \<longrightarrow>
       map Inr (emails (fst (fst (generateMail L c search since False delete s))))
         = take (length (emails (fst (fst (generateMail L c search since False delete s)))))
             (map (newEmail L) (filter has_header recs)))"
  using worker_unseen_follows [of L c search since delete s]
    worker_unseen_fail [of seq err L c search since delete s]
    worker_prefix [of c L search since s cmd s1 recs s2 False delete]
  by (simp add: generateMail_def del: set_concat)

text \<open>Four records, the second with flags only; the second store that removes the seen
  flag fails. The first two emails are sent, the third is not.\<close>

theorem unread_store_follows_each_email_witness:
  "Store {2} ''-FLAGS'' (CHR 0x5C # ''SEEN'') (Some (ErrorString ''connection closed''))
     \<in> set (fst (fst (generateMail example_L
         (example_Client (Inr [[1, 2, 3]])
            (Inr [example_record 1, flags_only_record, example_record 2, example_record 3]) 2)
         ''UNSEEN'' None False False 0)))
   \<and> UIDSearch (Imap (example_Client (Inr [[1, 2, 3]])
            (Inr [example_record 1, flags_only_record, example_record 2, example_record 3]) 2))
        (findEmails_specs example_L ''UNSEEN'' None) 0 = (Inr [[1, 2, 3]], 0)
   \<and> concat [[1, 2, 3 :: uid]] \<noteq> []
   \<and> UIDFetch (Imap (example_Client (Inr [[1, 2, 3]])
            (Inr [example_record 1, flags_only_record, example_record 2, example_record 3]) 2))
        (set (concat [[1, 2, 3]])) [''INTERNALDATE'', ''BODY[]'', ''UID'', ''RFC822.HEADER''] 0
       = (Inr [example_record 1, flags_only_record, example_record 2, example_record 3], 0)
   \<and> unseen_follows (fst (fst (generateMail example_L
         (example_Client (Inr [[1, 2, 3]])
            (Inr [example_record 1, flags_only_record, example_record 2, example_record 3]) 2)
         ''UNSEEN'' None False False 0)))
   \<and> length (filter is_unseen_store (fst (fst (generateMail example_L
         (example_Client (Inr [[1, 2, 3]])
            (Inr [example_record 1, flags_only_record, example_record 2, example_record 3]) 2)
         ''UNSEEN'' None False False 0)))) = 2
   \<and> sent (fst (fst (generateMail example_L
         (example_Client (Inr [[1, 2, 3]])
            (Inr [example_record 1, flags_only_record, example_record 2, example_record 3]) 2)
         ''UNSEEN'' None False False 0)))
      = [Response_Email (example_email 1), Response_Email (example_email 2),
         Response_Err (ErrorString ''unable to remove seen flag: connection closed'')]
   \<and> map Inr (emails (fst (fst (generateMail example_L
         (example_Client (Inr [[1, 2, 3]])
            (Inr [example_record 1, flags_only_record, example_record 2, example_record 3]) 2)
         ''UNSEEN'' None False False 0))))
      = take 2 (map (newEmail example_L) (filter has_header
          [example_record 1, flags_only_record, example_record 2, example_record 3]))
   \<and> (\<exists>pre email. fst (fst (generateMail example_L
         (example_Client (Inr [[1, 2, 3]])
            (Inr [example_record 1, flags_only_record, example_record 2, example_record 3]) 2)
         ''UNSEEN'' None False False 0))
        = pre @ [Send (Response_Email email),
                 unseen_store email (Some (ErrorString ''connection closed'')),
                 Send (Response_Err (Errorf ''unable to remove seen flag: ''
                    (ErrorString ''connection closed''))), Close]
        \<and> {2} = {AsNumber (ID email)} \<and> errors pre = [])"
proof -
  let ?c = "example_Client (Inr [[1, 2, 3]])
            (Inr [example_record 1, flags_only_record, example_record 2, example_record 3]) 2"
  let ?run = "fst (fst (generateMail example_L ?c ''UNSEEN'' None False False 0))"
  have run: "?run =
    [Search [''UNSEEN''],
     Fetch {1, 2, 3} [''INTERNALDATE'', ''BODY[]'', ''UID'', ''RFC822.HEADER''],
     Send (Response_Email (example_email 1)),
     Store {1} ''-FLAGS'' (CHR 0x5C # ''SEEN'') None,
     Send (Response_Email (example_email 2)),
     Store {2} ''-FLAGS'' (CHR 0x5C # ''SEEN'') (Some (ErrorString ''connection closed'')),
     Send (Response_Err (ErrorString ''unable to remove seen flag: connection closed'')),
     Close]"
    by (simp add: generateMail_def generateMail_worker_def findEmails_def findEmails_specs_def
        getEmails_eq example_records record_headers
        SetAsUnread_def DeleteEmail_def alterEmail_eq example_Client_def example_Imap_def
        example_email_def Errorf_def)
  have h1: "Store {2} ''-FLAGS'' (CHR 0x5C # ''SEEN'') (Some (ErrorString ''connection closed''))
     \<in> set ?run"
    by (simp only: run) simp
  have h2: "UIDSearch (Imap ?c) (findEmails_specs example_L ''UNSEEN'' None) 0
      = (Inr [[1, 2, 3]], 0)"
    by (simp add: example_Client_def example_Imap_def)
  have h3: "concat [[1, 2, 3 :: uid]] \<noteq> []" by simp
  have h4: "UIDFetch (Imap ?c) (set (concat [[1, 2, 3]]))
        [''INTERNALDATE'', ''BODY[]'', ''UID'', ''RFC822.HEADER''] 0
       = (Inr [example_record 1, flags_only_record, example_record 2, example_record 3], 0)"
    by (simp add: example_Client_def example_Imap_def)
  note res = unread_store_follows_each_email [of example_L ?c "''UNSEEN''" None False 0
      "{2}" "ErrorString ''connection closed''" "[[1, 2, 3]]" 0
      "[example_record 1, flags_only_record, example_record 2, example_record 3]" 0]
  from res have "unseen_follows ?run" by blast
  moreover from res have "length (filter is_unseen_store ?run) = length (emails ?run)" by blast
  then have "length (filter is_unseen_store ?run) = 2"
    by (simp only: run) (simp add: emails_simps)
  moreover have "sent ?run = [Response_Email (example_email 1), Response_Email (example_email 2),
         Response_Err (ErrorString ''unable to remove seen flag: connection closed'')]"
    by (simp only: run) simp
  moreover have "length (emails ?run) = 2"
    by (simp only: run) (simp add: emails_simps)
  with res h2 h3 h4 have "map Inr (emails ?run)
      = take 2 (map (newEmail example_L) (filter has_header
          [example_record 1, flags_only_record, example_record 2, example_record 3]))"
    by metis
  moreover from res h1 have "\<exists>pre email. ?run
        = pre @ [Send (Response_Email email),
                 unseen_store email (Some (ErrorString ''connection closed'')),
                 Send (Response_Err (Errorf ''unable to remove seen flag: ''
                    (ErrorString ''connection closed''))), Close]
        \<and> {2} = {AsNumber (ID email)} \<and> errors pre = []"
    by blast
  ultimately show ?thesis using h1 h2 h3 h4 by blast
qed

text \<open>
  Claim C5. \<open>VisibleText\<close> computes the flat-flag algorithm over the token stream:
  whenever the tokenizer yields the tokens \<open>toks\<close>, none of them an error token, and then
  an error token, \<open>VisibleText\<close> returns, and its fragments are those of \<open>flat_flag\<close> on
  \<open>toks\<close>. The flag is set by a start tag named \<open>style\<close>, \<open>script\<close>, \<open>head\<close>, \<open>meta\<close>,
  \<open>doctype\<close>, \<open>v:shape\<close>, \<open>v:imagedata\<close> or \<open>!\<close> and cleared by an end tag with one of these
  names; a text token met while the flag is false is trimmed, dropped when empty and
  appended otherwise, in the order met. On the tokens of
  \<^verbatim>\<open><html><head><style>.a{}</style></head><body>Hi <b>there</b></body></html>\<close>
  the fragments are \<open>Hi\<close> and \<open>there\<close>.
\<close>

theorem VisibleText_flat_flag:
  "(tokens_from Next z (Suc n) = toks @ [ErrorToken err]
      \<and> (\<forall>t\<in>set toks. \<not> is_ErrorToken t) \<longrightarrow>
    VisibleText TrimSpace Next z = Some (flat_flag TrimSpace toks, returned_error err))
   \<and> VisibleText ascii_TrimSpace list_Next example_tokens = Some ([''Hi'', ''there''], None)"
proof
  show "tokens_from Next z (Suc n) = toks @ [ErrorToken err]
      \<and> (\<forall>t\<in>set toks. \<not> is_ErrorToken t) \<longrightarrow>
    VisibleText TrimSpace Next z = Some (flat_flag TrimSpace toks, returned_error err)"
    using VisibleText_loop_run [of Next z n toks err TrimSpace "[]" False]
    by (simp add: VisibleText_def flat_flag_def)
next
  have toks: "tokens_from list_Next example_tokens (Suc (length example_tokens))
      = example_tokens @ [ErrorToken EOF]"
    by (simp add: example_tokens_def)
  have ne: "\<forall>t\<in>set example_tokens. \<not> is_ErrorToken t"
    by (simp add: example_tokens_def)
  have "VisibleText ascii_TrimSpace list_Next example_tokens
          = Some (flat_flag ascii_TrimSpace example_tokens, returned_error EOF)"
    using VisibleText_loop_run [OF toks ne, of ascii_TrimSpace "[]" False]
    by (simp add: VisibleText_def flat_flag_def)
  also have "flat_flag ascii_TrimSpace example_tokens = [''Hi'', ''there'']"
    by (simp add: flat_flag_def example_tokens_def non_visible_names_def ascii_TrimSpace_def
        asciiSpace_def)
  finally show "VisibleText ascii_TrimSpace list_Next example_tokens
      = Some ([''Hi'', ''there''], None)"
    by (simp add: returned_error_def)
qed

text \<open>Tokens in which an end tag of another name clears the flag: \<open>script\<close> sets it and
  the end tag \<open>head\<close> clears it, so the text after it is visible; a text of white space is
  dropped.\<close>

theorem VisibleText_flat_flag_witness:
  "tokens_from list_Next
      [StartTagToken ''body'', TextToken ''  a '', StartTagToken ''script'', TextToken ''x()'',
       EndTagToken ''head'', TextToken ''b'', SelfClosingTagToken ''br'', TextToken ''   ''] (Suc 8)
     = [StartTagToken ''body'', TextToken ''  a '', StartTagToken ''script'', TextToken ''x()'',
        EndTagToken ''head'', TextToken ''b'', SelfClosingTagToken ''br'', TextToken ''   '']
       @ [ErrorToken EOF]
   \<and> list_all (\<lambda>t. \<not> is_ErrorToken t)
        [StartTagToken ''body'', TextToken ''  a '', StartTagToken ''script'', TextToken ''x()'',
         EndTagToken ''head'', TextToken ''b'', SelfClosingTagToken ''br'', TextToken ''   '']
   \<and> VisibleText ascii_TrimSpace list_Next
        [StartTagToken ''body'', TextToken ''  a '', StartTagToken ''script'', TextToken ''x()'',
         EndTagToken ''head'', TextToken ''b'', SelfClosingTagToken ''br'', TextToken ''   '']
      = Some ([''a'', ''b''], None)"
proof -
  let ?w = "[StartTagToken ''body'', TextToken ''  a '', StartTagToken ''script'',
             TextToken ''x()'', EndTagToken ''head'', TextToken ''b'', SelfClosingTagToken ''br'',
             TextToken ''   '']"
  have h1: "tokens_from list_Next ?w (Suc 8) = ?w @ [ErrorToken EOF]"
    by (simp add: eval_nat_numeral)
  have h2: "\<forall>t\<in>set ?w. \<not> is_ErrorToken t" by simp
  have ff: "flat_flag ascii_TrimSpace ?w = [''a'', ''b'']"
    by (simp add: flat_flag_def non_visible_names_def ascii_TrimSpace_def asciiSpace_def)
  from VisibleText_flat_flag [of list_Next ?w 8 ?w EOF ascii_TrimSpace] h1 h2
  have "VisibleText ascii_TrimSpace list_Next ?w
          = Some (flat_flag ascii_TrimSpace ?w, returned_error EOF)"
    by blast
  with ff have "VisibleText ascii_TrimSpace list_Next ?w = Some ([''a'', ''b''], None)"
    by (simp add: returned_error_def)
  with h1 h2 show ?thesis by (simp add: list_all_iff)
qed

text \<open>
  Claim C6. When the tokenizer, after any tokens, reports an error, \<open>VisibleText\<close>
  returns the fragments gathered from the tokens before it. With \<open>io.EOF\<close> (the end of the
  input, also when the input stops in the middle of a tag) the returned error is nil;
  with any other error the returned error is that error.
\<close>

theorem VisibleText_end_of_stream:
  assumes "tokens_from Next z (Suc n) = toks @ [ErrorToken err]"
    and "\<forall>t\<in>set toks. \<not> is_ErrorToken t"
  shows "(err = EOF \<longrightarrow>
            VisibleText TrimSpace Next z = Some (flat_flag TrimSpace toks, None))
         \<and> (err \<noteq> EOF \<longrightarrow>
            VisibleText TrimSpace Next z = Some (flat_flag TrimSpace toks, Some err))"
  using VisibleText_loop_run [OF assms, of TrimSpace "[]" False]
  by (simp add: VisibleText_def flat_flag_def returned_error_def)

text \<open>An input that ends after a text, and a read that fails after the same text: the
  fragment is returned in both runs, with the nil error in the first and with the read
  error in the second.\<close>

theorem VisibleText_end_of_stream_witness:
  "tokens_from list_Next [StartTagToken ''body'', TextToken ''Hi ''] (Suc 2)
     = [StartTagToken ''body'', TextToken ''Hi ''] @ [ErrorToken EOF]
   \<and> tokens_from list_Next
        [StartTagToken ''body'', TextToken ''Hi '', ErrorToken (ErrorString ''connection reset'')]
        (Suc 2)
     = [StartTagToken ''body'', TextToken ''Hi '']
       @ [ErrorToken (ErrorString ''connection reset'')]
   \<and> list_all (\<lambda>t. \<not> is_ErrorToken t) [StartTagToken ''body'', TextToken ''Hi '']
   \<and> VisibleText ascii_TrimSpace list_Next [StartTagToken ''body'', TextToken ''Hi '']
       = Some ([''Hi''], None)
   \<and> VisibleText ascii_TrimSpace list_Next
        [StartTagToken ''body'', TextToken ''Hi '', ErrorToken (ErrorString ''connection reset'')]
       = Some ([''Hi''], Some (ErrorString ''connection reset''))"
proof -
  let ?w = "[StartTagToken ''body'', TextToken ''Hi '']"
  let ?e = "ErrorString ''connection reset''"
  have h1: "tokens_from list_Next ?w (Suc 2) = ?w @ [ErrorToken EOF]"
    by (simp add: eval_nat_numeral)
  have h1': "tokens_from list_Next (?w @ [ErrorToken ?e]) (Suc 2) = ?w @ [ErrorToken ?e]"
    by (simp add: eval_nat_numeral)
  have h2: "\<forall>t\<in>set ?w. \<not> is_ErrorToken t" by simp
  have ff: "flat_flag ascii_TrimSpace ?w = [''Hi'']"
    by (simp add: flat_flag_def non_visible_names_def ascii_TrimSpace_def asciiSpace_def)
  from VisibleText_end_of_stream [OF h1 h2, of ascii_TrimSpace] ff
  have a: "VisibleText ascii_TrimSpace list_Next ?w = Some ([''Hi''], None)"
    by simp
  from VisibleText_end_of_stream [OF h1' h2, of ascii_TrimSpace] ff
  have b: "VisibleText ascii_TrimSpace list_Next (?w @ [ErrorToken ?e]) = Some ([''Hi''], Some ?e)"
    by simp
  from a b h1 h1' h2 show ?thesis by (simp add: list_all_iff)
qed

text \<open>
  Claim C9. On the mailbox of the specification, each flag operation is idempotent: a
  second \<open>DeleteEmail\<close>, \<open>SetAsUnread\<close> or \<open>SetAsRead\<close> on the same email returns no error
  and leaves the mailbox as the first call left it. After \<open>DeleteEmail\<close> the message has
  the flag \<open>\DELETED\<close>, after \<open>SetAsRead\<close> it has \<open>\SEEN\<close>, after \<open>SetAsUnread\<close> it has not.
  Each call issues one store on the one-element set of the email's identifier.
\<close>

theorem flag_operations_idempotent:
  "fst (DeleteEmail (with_store c) email (snd (snd (DeleteEmail (with_store c) email mb)))) = None
   \<and> snd (snd (DeleteEmail (with_store c) email (snd (snd (DeleteEmail (with_store c) email mb)))))
       = snd (snd (DeleteEmail (with_store c) email mb))
   \<and> CHR 0x5C # ''DELETED'' \<in> snd (snd (DeleteEmail (with_store c) email mb)) (AsNumber (ID email))
   \<and> fst (SetAsUnread (with_store c) email (snd (snd (SetAsUnread (with_store c) email mb)))) = None
   \<and> snd (snd (SetAsUnread (with_store c) email (snd (snd (SetAsUnread (with_store c) email mb)))))
       = snd (snd (SetAsUnread (with_store c) email mb))
   \<and> CHR 0x5C # ''SEEN'' \<notin> snd (snd (SetAsUnread (with_store c) email mb)) (AsNumber (ID email))
   \<and> fst (SetAsRead (with_store c) email (snd (snd (SetAsRead (with_store c) email mb)))) = None
   \<and> snd (snd (SetAsRead (with_store c) email (snd (snd (SetAsRead (with_store c) email mb)))))
       = snd (snd (SetAsRead (with_store c) email mb))
   \<and> CHR 0x5C # ''SEEN'' \<in> snd (snd (SetAsRead (with_store c) email mb)) (AsNumber (ID email))
   \<and> fst (snd (DeleteEmail (with_store c) email mb))
       = [Store {AsNumber (ID email)} ''+FLAGS'' (CHR 0x5C # ''DELETED'') None]"
  by (simp add: DeleteEmail_def SetAsUnread_def SetAsRead_def alterEmail_eq with_store_def
      Session_store_def fun_eq_iff)

text \<open>
  Claim C10. \<open>GenerateAll\<close>, \<open>GenerateUnread\<close> and \<open>GenerateSince\<close> (and \<open>generateMail\<close>
  behind them) always return the nil error, and every failure reaches the caller as a
  response on the channel:
  \<^item> a search that fails is the one response \<open>uid search failed: ...\<close>;
  \<^item> a fetch that fails is the one response \<open>unable to perform uid fetch: ...\<close>;
  \<^item> when the records \<open>xs\<close> before a record \<open>r\<close> with the header field were handled
    without error, a message of \<open>r\<close> that does not parse is the response
    \<open>unable to parse email: ...\<close> after the responses for \<open>xs\<close>; a store removing the
    seen flag of \<open>r\<close> that fails is the response \<open>unable to remove seen flag: ...\<close>
    after the email of \<open>r\<close>; and a store deleting \<open>r\<close> that fails is the response
    \<open>unable to delete email: ...\<close> after the email of \<open>r\<close>.
\<close>

theorem generators_return_nil_error:
  "snd (GenerateAll L c markAsRead delete s) = None
   \<and> snd (GenerateUnread L c markAsRead delete s) = None
   \<and> snd (GenerateSince L c t markAsRead delete s) = None
   \<and> snd (generateMail L c search since markAsRead delete s) = None
   \<and> (fst (UIDSearch (Imap c) (findEmails_specs L search since) s) = Inl err \<longrightarrow>
        sent (fst (fst (generateMail L c search since markAsRead delete s)))
          = [Response_Err (Errorf ''uid search failed: '' err)])
   \<and> (UIDSearch (Imap c) (findEmails_specs L search since) s = (Inr cmd, ss)
       \<and> concat cmd \<noteq> []
       \<and> UIDFetch (Imap c) (set (concat cmd))
            [''INTERNALDATE'', ''BODY[]'', ''UID'', ''RFC822.HEADER''] ss = (Inl err, sf) \<longrightarrow>
        sent (fst (fst (generateMail L c search since markAsRead delete s)))
          = [Response_Err (Errorf ''unable to perform uid fetch: '' err)])
   \<and> (UIDSearch (Imap c) (findEmails_specs L search since) s = (Inr cmd, ss)
       \<and> concat cmd \<noteq> []
       \<and> UIDFetch (Imap c) (set (concat cmd))
            [''INTERNALDATE'', ''BODY[]'', ''UID'', ''RFC822.HEADER''] ss
           = (Inr (xs @ r # ys), sf)
       \<and> getEmails_loop L c markAsRead delete xs sf = (tr, sl)
       \<and> errors tr = []
       \<and> r ''RFC822.HEADER'' \<noteq> None \<longrightarrow>
        (newEmail L r = Inl err \<longrightarrow>
           sent (fst (fst (generateMail L c search since markAsRead delete s)))
             = sent tr @ [Response_Err (Errorf ''unable to parse email: '' err)])
        \<and> (newEmail L r = Inr email \<and> \<not> markAsRead
            \<and> fst (UIDStore (Imap c) {AsNumber (ID email)} ''-FLAGS'' (CHR 0x5C # ''SEEN'') sl)
                = Some err \<longrightarrow>
           sent (fst (fst (generateMail L c search since markAsRead delete s)))
             = sent tr @ [Response_Email email,
                          Response_Err (Errorf ''unable to remove seen flag: '' err)])
        \<and> (newEmail L r = Inr email \<and> delete
            \<and> (markAsRead \<and> su = sl \<or>
                \<not> markAsRead \<and>
                UIDStore (Imap c) {AsNumber (ID email)} ''-FLAGS'' (CHR 0x5C # ''SEEN'') sl
                  = (None, su))
            \<and> fst (UIDStore (Imap c) {AsNumber (ID email)} ''+FLAGS'' (CHR 0x5C # ''DELETED'') su)
                = Some err \<longrightarrow>
           sent (fst (fst (generateMail L c search since markAsRead delete s)))
             = sent tr @ [Response_Email email,
                          Response_Err (Errorf ''unable to delete email: '' err)]))"
proof -
  let ?run = "fst (fst (generateMail L c search since markAsRead delete s))"
  let ?specs = "findEmails_specs L search since"
  let ?items = "[''INTERNALDATE'', ''BODY[]'', ''UID'', ''RFC822.HEADER'']"
  have run: "?run = fst (generateMail_worker L c search since markAsRead delete s)"
    by (simp add: generateMail_def)
  have nil: "snd (GenerateAll L c markAsRead delete s) = None"
    "snd (GenerateUnread L c markAsRead delete s) = None"
    "snd (GenerateSince L c t markAsRead delete s) = None"
    "snd (generateMail L c search since markAsRead delete s) = None"
    by (simp_all add: GenerateAll_def GenerateUnread_def GenerateSince_def generateMail_def)
  have search: "sent ?run = [Response_Err (Errorf ''uid search failed: '' err)]"
    if "fst (UIDSearch (Imap c) ?specs s) = Inl err"
  proof -
    from that obtain s' where "UIDSearch (Imap c) ?specs s = (Inl err, s')"
      by (cases "UIDSearch (Imap c) ?specs s") auto
    from worker_search_fail [OF this] show ?thesis by (simp add: run)
  qed
  have fetch: "sent ?run = [Response_Err (Errorf ''unable to perform uid fetch: '' err)]"
    if "UIDSearch (Imap c) ?specs s = (Inr cmd, ss)" "concat cmd \<noteq> []"
      "UIDFetch (Imap c) (set (concat cmd)) ?items ss = (Inl err, sf)"
    using worker_fetch_fail [OF that] by (simp add: run)
  have rest: "sent ?run = sent tr @ sent tr'"
    if "UIDSearch (Imap c) ?specs s = (Inr cmd, ss)" "concat cmd \<noteq> []"
      "UIDFetch (Imap c) (set (concat cmd)) ?items ss = (Inr (xs @ r # ys), sf)"
      "getEmails_loop L c markAsRead delete xs sf = (tr, sl)" "errors tr = []"
      "getEmails_loop L c markAsRead delete (r # ys) sl = (tr', s')" for tr' s'
    using worker_sent_fetched [OF that] by (simp only: run)
  have parse: "sent ?run = sent tr @ [Response_Err (Errorf ''unable to parse email: '' err)]"
    if "UIDSearch (Imap c) ?specs s = (Inr cmd, ss)" "concat cmd \<noteq> []"
      "UIDFetch (Imap c) (set (concat cmd)) ?items ss = (Inr (xs @ r # ys), sf)"
      "getEmails_loop L c markAsRead delete xs sf = (tr, sl)" "errors tr = []"
      "r ''RFC822.HEADER'' \<noteq> None" "newEmail L r = Inl err"
    using rest [OF that(1-5) loop_parse_fail [OF that(6,7)]] by simp
  have unseen: "sent ?run = sent tr @ [Response_Email email,
                          Response_Err (Errorf ''unable to remove seen flag: '' err)]"
    if "UIDSearch (Imap c) ?specs s = (Inr cmd, ss)" "concat cmd \<noteq> []"
      "UIDFetch (Imap c) (set (concat cmd)) ?items ss = (Inr (xs @ r # ys), sf)"
      "getEmails_loop L c markAsRead delete xs sf = (tr, sl)" "errors tr = []"
      "r ''RFC822.HEADER'' \<noteq> None" "newEmail L r = Inr email" "\<not> markAsRead"
      "fst (UIDStore (Imap c) {AsNumber (ID email)} ''-FLAGS'' (CHR 0x5C # ''SEEN'') sl) = Some err"
  proof -
    from that(9) obtain s' where
      "UIDStore (Imap c) {AsNumber (ID email)} ''-FLAGS'' (CHR 0x5C # ''SEEN'') sl = (Some err, s')"
      by (cases "UIDStore (Imap c) {AsNumber (ID email)} ''-FLAGS'' (CHR 0x5C # ''SEEN'') sl") auto
    from rest [OF that(1-5) loop_unseen_store_fail [OF that(6-8) this]] show ?thesis
      by (simp add: unseen_store_def)
  qed
  have del: "sent ?run = sent tr @ [Response_Email email,
                          Response_Err (Errorf ''unable to delete email: '' err)]"
    if "UIDSearch (Imap c) ?specs s = (Inr cmd, ss)" "concat cmd \<noteq> []"
      "UIDFetch (Imap c) (set (concat cmd)) ?items ss = (Inr (xs @ r # ys), sf)"
      "getEmails_loop L c markAsRead delete xs sf = (tr, sl)" "errors tr = []"
      "r ''RFC822.HEADER'' \<noteq> None" "newEmail L r = Inr email" "delete"
      "markAsRead \<and> su = sl \<or> \<not> markAsRead \<and>
         UIDStore (Imap c) {AsNumber (ID email)} ''-FLAGS'' (CHR 0x5C # ''SEEN'') sl = (None, su)"
      "fst (UIDStore (Imap c) {AsNumber (ID email)} ''+FLAGS'' (CHR 0x5C # ''DELETED'') su) = Some err"
  proof -
    from that(10) obtain s' where
      "UIDStore (Imap c) {AsNumber (ID email)} ''+FLAGS'' (CHR 0x5C # ''DELETED'') su = (Some err, s')"
      by (cases "UIDStore (Imap c) {AsNumber (ID email)} ''+FLAGS'' (CHR 0x5C # ''DELETED'') su") auto
    from rest [OF that(1-5) loop_delete_store_fail [OF that(6-9) this]] show ?thesis
      by (simp add: unseen_store_def)
  qed
  from nil search fetch parse unseen del show ?thesis by blast
qed

text \<open>Five runs, one for each failure: a search that times out, a fetch that is refused,
  a second record that does not parse, a second removal of the seen flag that fails, and
  a deletion that fails after the seen flag was removed. Each failure is the last response
  of its stream, and the returned error is nil.\<close>

theorem generators_return_nil_error_witness:
  "snd (GenerateUnread example_L (example_Client (Inl (ErrorString ''timeout'')) (Inr []) 0)
          True False 0) = None
   \<and> fst (UIDSearch (Imap (example_Client (Inl (ErrorString ''timeout'')) (Inr []) 0))
          (findEmails_specs example_L ''UNSEEN'' None) 0) = Inl (ErrorString ''timeout'')
   \<and> sent (fst (fst (generateMail example_L
              (example_Client (Inl (ErrorString ''timeout'')) (Inr []) 0) ''UNSEEN'' None
              True False 0)))
       = [Response_Err (ErrorString ''uid search failed: timeout'')]
   \<and> UIDFetch (Imap (example_Client (Inr [[1]]) (Inl (ErrorString ''refused'')) 0))
          (set (concat [[1]])) [''INTERNALDATE'', ''BODY[]'', ''UID'', ''RFC822.HEADER''] 0
       = (Inl (ErrorString ''refused''), 0)
   \<and> sent (fst (fst (generateMail example_L
              (example_Client (Inr [[1]]) (Inl (ErrorString ''refused'')) 0) ''ALL'' None
              True False 0)))
       = [Response_Err (ErrorString ''unable to perform uid fetch: refused'')]
   \<and> newEmail example_L (bad_record 2)
       = Inl (ErrorString ''unable to read header: malformed header'')
   \<and> sent (fst (fst (generateMail example_L
              (example_Client (Inr [[1, 2, 3]])
                 (Inr ([example_record 1] @ bad_record 2 # [example_record 3])) 0)
              ''ALL'' None True False 0)))
       = [Response_Email (example_email 1),
          Response_Err (ErrorString
            ''unable to parse email: unable to read header: malformed header'')]
   \<and> fst (UIDStore (Imap (example_Client (Inr [[1, 2]])
                 (Inr ([example_record 1] @ example_record 2 # [])) 2))
          {AsNumber (ID (example_email 2))} ''-FLAGS'' (CHR 0x5C # ''SEEN'') 1)
       = Some (ErrorString ''connection closed'')
   \<and> sent (fst (fst (generateMail example_L
              (example_Client (Inr [[1, 2]])
                 (Inr ([example_record 1] @ example_record 2 # [])) 2)
              ''ALL'' None False False 0)))
       = [Response_Email (example_email 1), Response_Email (example_email 2),
          Response_Err (ErrorString ''unable to remove seen flag: connection closed'')]
   \<and> fst (UIDStore (Imap (example_Client (Inr [[1, 2]])
                 (Inr ([] @ example_record 1 # [example_record 2])) 2))
          {AsNumber (ID (example_email 1))} ''+FLAGS'' (CHR 0x5C # ''DELETED'') 1)
       = Some (ErrorString ''connection closed'')
   \<and> sent (fst (fst (generateMail example_L
              (example_Client (Inr [[1, 2]])
                 (Inr ([] @ example_record 1 # [example_record 2])) 2)
              ''ALL'' None False True 0)))
       = [Response_Email (example_email 1),
          Response_Err (ErrorString ''unable to delete email: connection closed'')]"
proof -
  let ?items = "[''INTERNALDATE'', ''BODY[]'', ''UID'', ''RFC822.HEADER'']"
  let ?closed = "ErrorString ''connection closed''"
  \<comment> \<open>the search fails\<close>
  let ?c1 = "example_Client (Inl (ErrorString ''timeout'')) (Inr []) 0"
  note r1 = generators_return_nil_error [where L = example_L and c = ?c1 and search = "''UNSEEN''"
      and since = None and markAsRead = True and delete = False and s = 0
      and err = "ErrorString ''timeout''"]
  have a1: "fst (UIDSearch (Imap ?c1) (findEmails_specs example_L ''UNSEEN'' None) 0)
      = Inl (ErrorString ''timeout'')"
    by (simp add: example_Client_def example_Imap_def)
  from r1 have n1: "snd (GenerateUnread example_L ?c1 True False 0) = None" by blast
  from r1 a1 have c1: "sent (fst (fst (generateMail example_L ?c1 ''UNSEEN'' None True False 0)))
      = [Response_Err (Errorf ''uid search failed: '' (ErrorString ''timeout''))]" by blast
  \<comment> \<open>the fetch fails\<close>
  let ?c2 = "example_Client (Inr [[1]]) (Inl (ErrorString ''refused'')) 0"
  note r2 = generators_return_nil_error [where L = example_L and c = ?c2 and search = "''ALL''"
      and since = None and markAsRead = True and delete = False and s = 0
      and err = "ErrorString ''refused''" and cmd = "[[1]]" and ss = 0 and sf = 0]
  have a2: "UIDSearch (Imap ?c2) (findEmails_specs example_L ''ALL'' None) 0 = (Inr [[1]], 0)"
    "concat [[1 :: uid]] \<noteq> []"
    "UIDFetch (Imap ?c2) (set (concat [[1]])) ?items 0 = (Inl (ErrorString ''refused''), 0)"
    by (simp_all add: example_Client_def example_Imap_def)
  from r2 a2 have c2: "sent (fst (fst (generateMail example_L ?c2 ''ALL'' None True False 0)))
      = [Response_Err (Errorf ''unable to perform uid fetch: '' (ErrorString ''refused''))]"
    by blast
  \<comment> \<open>the second message does not parse\<close>
  let ?c3 = "example_Client (Inr [[1, 2, 3]])
               (Inr ([example_record 1] @ bad_record 2 # [example_record 3])) 0"
  let ?tr3 = "[Send (Response_Email (example_email 1))] :: bytes event list"
  note r3 = generators_return_nil_error [where L = example_L and c = ?c3 and search = "''ALL''"
      and since = None and markAsRead = True and delete = False and s = 0
      and err = "ErrorString ''unable to read header: malformed header''"
      and cmd = "[[1, 2, 3]]" and ss = 0 and sf = 0 and xs = "[example_record 1]"
      and r = "bad_record 2" and ys = "[example_record 3]" and tr = ?tr3 and sl = 0]
  have a3: "UIDSearch (Imap ?c3) (findEmails_specs example_L ''ALL'' None) 0
      = (Inr [[1, 2, 3]], 0)"
    "concat [[1, 2, 3 :: uid]] \<noteq> []"
    "UIDFetch (Imap ?c3) (set (concat [[1, 2, 3]])) ?items 0
      = (Inr ([example_record 1] @ bad_record 2 # [example_record 3]), 0)"
    "getEmails_loop example_L ?c3 True False [example_record 1] 0 = (?tr3, 0)"
    "errors ?tr3 = []"
    "bad_record 2 ''RFC822.HEADER'' \<noteq> None"
    "newEmail example_L (bad_record 2)
      = Inl (ErrorString ''unable to read header: malformed header'')"
    by (simp_all add: example_Client_def example_Imap_def example_records record_headers
        errors_simps)
  from r3 a3 have c3: "sent (fst (fst (generateMail example_L ?c3 ''ALL'' None True False 0)))
      = sent ?tr3 @ [Response_Err (Errorf ''unable to parse email: ''
          (ErrorString ''unable to read header: malformed header''))]"
    by blast
  \<comment> \<open>the second removal of the seen flag fails\<close>
  let ?c4 = "example_Client (Inr [[1, 2]]) (Inr ([example_record 1] @ example_record 2 # [])) 2"
  let ?tr4 = "[Send (Response_Email (example_email 1)),
               Store {1} ''-FLAGS'' (CHR 0x5C # ''SEEN'') None] :: bytes event list"
  note r4 = generators_return_nil_error [where L = example_L and c = ?c4 and search = "''ALL''"
      and since = None and markAsRead = False and delete = False and s = 0
      and err = ?closed and cmd = "[[1, 2]]" and ss = 0 and sf = 0
      and xs = "[example_record 1]" and r = "example_record 2" and ys = "[]" and tr = ?tr4
      and sl = 1 and email = "example_email 2"]
  have a4: "UIDSearch (Imap ?c4) (findEmails_specs example_L ''ALL'' None) 0
      = (Inr [[1, 2]], 0)"
    "concat [[1, 2 :: uid]] \<noteq> []"
    "UIDFetch (Imap ?c4) (set (concat [[1, 2]])) ?items 0
      = (Inr ([example_record 1] @ example_record 2 # []), 0)"
    "getEmails_loop example_L ?c4 False False [example_record 1] 0 = (?tr4, 1)"
    "errors ?tr4 = []"
    "example_record 2 ''RFC822.HEADER'' \<noteq> None"
    "newEmail example_L (example_record 2) = Inr (example_email 2)"
    "fst (UIDStore (Imap ?c4) {AsNumber (ID (example_email 2))} ''-FLAGS''
       (CHR 0x5C # ''SEEN'') 1) = Some ?closed"
    by (simp_all add: example_Client_def example_Imap_def example_records record_headers
        errors_simps SetAsUnread_def alterEmail_eq example_email_def)
  from r4 a4 have c4: "sent (fst (fst (generateMail example_L ?c4 ''ALL'' None False False 0)))
      = sent ?tr4 @ [Response_Email (example_email 2),
          Response_Err (Errorf ''unable to remove seen flag: '' ?closed)]"
    by blast
  \<comment> \<open>the deletion fails\<close>
  let ?c5 = "example_Client (Inr [[1, 2]]) (Inr ([] @ example_record 1 # [example_record 2])) 2"
  note r5 = generators_return_nil_error [where L = example_L and c = ?c5 and search = "''ALL''"
      and since = None and markAsRead = False and delete = True and s = 0
      and err = ?closed and cmd = "[[1, 2]]" and ss = 0 and sf = 0
      and xs = "[]" and r = "example_record 1" and ys = "[example_record 2]"
      and tr = "[] :: bytes event list" and sl = 0 and email = "example_email 1" and su = 1]
  have a5: "UIDSearch (Imap ?c5) (findEmails_specs example_L ''ALL'' None) 0
      = (Inr [[1, 2]], 0)"
    "concat [[1, 2 :: uid]] \<noteq> []"
    "UIDFetch (Imap ?c5) (set (concat [[1, 2]])) ?items 0
      = (Inr ([] @ example_record 1 # [example_record 2]), 0)"
    "getEmails_loop example_L ?c5 False True [] 0 = ([], 0)"
    "errors ([] :: bytes event list) = []"
    "example_record 1 ''RFC822.HEADER'' \<noteq> None"
    "newEmail example_L (example_record 1) = Inr (example_email 1)"
    "UIDStore (Imap ?c5) {AsNumber (ID (example_email 1))} ''-FLAGS''
       (CHR 0x5C # ''SEEN'') 0 = (None, 1)"
    "fst (UIDStore (Imap ?c5) {AsNumber (ID (example_email 1))} ''+FLAGS''
       (CHR 0x5C # ''DELETED'') 1) = Some ?closed"
    by (simp_all add: example_Client_def example_Imap_def example_records record_headers
        errors_simps)
  from r5 a5 have c5: "sent (fst (fst (generateMail example_L ?c5 ''ALL'' None False True 0)))
      = sent ([] :: bytes event list) @ [Response_Email (example_email 1),
          Response_Err (Errorf ''unable to delete email: '' ?closed)]"
    by blast
  from n1 a1 c1 a2(3) c2 a3(7) c3 a4(8) c4 a5(9) c5 show ?thesis
    by (simp add: Errorf_def)
qed

end
